theory Spec2Isabelle
  imports Complex_Main "HOL-Library.AList"
begin

section \<open>Python numbers\<close>

text \<open>
  Python's \<open>int\<close> is unbounded and is modelled by \<open>int\<close> and \<open>nat\<close>. A Python \<open>float\<close> is an
  IEEE 754 double: a dyadic rational \<open>mant * 2 ^ expo\<close>. The operators the application uses
  on floats (\<open>int / int\<close>, \<open>float * int\<close>, \<open>math.ceil\<close>) return the double nearest to the exact
  result, ties to even. The exponent range of a double is not modelled: the quotients below
  stay far inside it for every list and count a process can hold.
\<close>

datatype pyfloat = PyFloat (mant: int) (expo: int)

definition pow2 :: "int \<Rightarrow> rat" where
  "pow2 e = (if 0 \<le> e then 2 ^ nat e else 1 / 2 ^ nat (- e))"

definition fval :: "pyfloat \<Rightarrow> rat" where
  "fval x = of_int (mant x) * pow2 (expo x)"

text \<open>\<open>int.bit_length()\<close>.\<close>

fun bit_length :: "nat \<Rightarrow> nat" where
  "bit_length n = (if n = 0 then 0 else Suc (bit_length (n div 2)))"

declare bit_length.simps [simp del]

text \<open>The quotient \<open>a / b\<close> rounded to the nearest natural number, ties to even.\<close>

definition rne :: "nat \<Rightarrow> nat \<Rightarrow> nat" where
  "rne a b =
     (let q = a div b; r = a mod b
      in if 2 * r < b then q
         else if b < 2 * r then q + 1
         else if even q then q else q + 1)"

definition pow2_le :: "int \<Rightarrow> nat \<Rightarrow> nat \<Rightarrow> bool" where
  "pow2_le d a b = (if 0 \<le> d then 2 ^ nat d * b \<le> a else b \<le> a * 2 ^ nat (- d))"

text \<open>The binary exponent of \<open>a / b\<close>: the \<open>e\<close> with \<open>2 ^ e \<le> a / b < 2 ^ (e + 1)\<close>.\<close>

definition ilog2 :: "nat \<Rightarrow> nat \<Rightarrow> int" where
  "ilog2 a b =
     (let d = int (bit_length a) - int (bit_length b)
      in if pow2_le d a b then d else d - 1)"

text \<open>The double nearest to \<open>a / b\<close> for naturals \<open>a\<close> and \<open>b > 0\<close>: a 53-bit mantissa.\<close>

definition fl :: "nat \<Rightarrow> nat \<Rightarrow> pyfloat" where
  "fl a b =
     (if a = 0 then PyFloat 0 0
      else let k = 52 - ilog2 a b
           in if 0 \<le> k then PyFloat (int (rne (a * 2 ^ nat k) b)) (- k)
              else PyFloat (int (rne a (b * 2 ^ nat (- k)))) (- k))"

text \<open>The same for a signed numerator; rounding to nearest is symmetric in the sign.\<close>

definition fround :: "int \<Rightarrow> nat \<Rightarrow> pyfloat" where
  "fround a b = (let f = fl (nat \<bar>a\<bar>) b in PyFloat (sgn a * mant f) (expo f))"

text \<open>
  \<open>a / b\<close> on two Python ints (true division) for \<open>b \<noteq> 0\<close>. Division by zero raises in
  Python; both callers exclude it (a guard in \<open>profile\<close>, the literal 10 in \<open>movie\<close>).
\<close>

definition truediv :: "int \<Rightarrow> int \<Rightarrow> pyfloat" where
  "truediv a b = fround (sgn b * a) (nat \<bar>b\<bar>)"

text \<open>\<open>x * n\<close> for a float \<open>x\<close> and an int \<open>n\<close> that a double holds exactly (here 100).\<close>

definition fmul_int :: "pyfloat \<Rightarrow> int \<Rightarrow> pyfloat" where
  "fmul_int x n =
     (let m = mant x * n
      in if 0 \<le> expo x then fround (m * 2 ^ nat (expo x)) 1
         else fround m (2 ^ nat (- expo x)))"

text \<open>\<open>math.ceil(x)\<close>: an int.\<close>

definition fceil :: "pyfloat \<Rightarrow> int" where
  "fceil x =
     (if 0 \<le> expo x then mant x * 2 ^ nat (expo x)
      else - ((- mant x) div 2 ^ nat (- expo x)))"

text \<open>A value that is an int on one path and a float on another.\<close>

datatype pynum = PyInt int | PyFl pyfloat

fun num_val :: "pynum \<Rightarrow> rat" where
  "num_val (PyInt i) = of_int i"
| "num_val (PyFl x) = fval x"

section \<open>Database models\<close>

text \<open>
  \<open>class User\<close> and \<open>class Review\<close>. The primary keys, both called \<open>id\<close> in the source, are
  \<open>uid\<close> and \<open>rid\<close> here. \<open>Review.confidence\<close> holds a float that is stored and compared but
  never computed with, so it is modelled by its value.
\<close>

record user =
  uid :: nat
  username :: string
  email :: string
  password :: string
  is_admin :: bool

record review =
  rid :: nat
  content :: string
  sentiment :: string
  confidence :: rat
  user_id :: nat
  imdb_id :: "string option"

section \<open>Profile statistics\<close>

text \<open>The dictionary \<open>stats\<close> built in \<open>profile\<close>.\<close>

record stats =
  total :: nat
  positive :: nat
  negative :: nat
  positive_percent :: pynum
  negative_percent :: pynum

definition profile_stats :: "review list \<Rightarrow> stats" where
  "profile_stats reviews =
     (let total_reviews = length reviews;
          positive_count = length (filter (\<lambda>r. sentiment r = ''Positive'') reviews);
          negative_count = total_reviews - positive_count
      in if total_reviews > 0
         then \<lparr>total = total_reviews, positive = positive_count, negative = negative_count,
               positive_percent =
                 PyFl (fmul_int (truediv (int positive_count) (int total_reviews)) 100),
               negative_percent =
                 PyFl (fmul_int (truediv (int negative_count) (int total_reviews)) 100)\<rparr>
         else \<lparr>total = total_reviews, positive = positive_count, negative = negative_count,
               positive_percent = PyInt 0, negative_percent = PyInt 0\<rparr>)"

section \<open>Search pagination\<close>

text \<open>\<open>total_pages = math.ceil(total_results / 10)\<close> in \<open>movie\<close>.\<close>

definition total_pages :: "int \<Rightarrow> int" where
  "total_pages total_results = fceil (truediv total_results 10)"

text \<open>The reviews of the specification's aggregation example: two positive, one negative.\<close>

definition sample_reviews :: "review list" where
  "sample_reviews =
     [\<lparr>rid = 3, content = ''great'', sentiment = ''Positive'', confidence = 9 / 10,
        user_id = 1, imdb_id = None\<rparr>,
      \<lparr>rid = 2, content = ''fine'', sentiment = ''Positive'', confidence = 7 / 10,
        user_id = 1, imdb_id = None\<rparr>,
      \<lparr>rid = 1, content = ''dull'', sentiment = ''Negative'', confidence = 8 / 10,
        user_id = 1, imdb_id = None\<rparr>]"


section \<open>The application and what it calls\<close>

text \<open>
  A handler ends in a response or in an exception that no handler in the source catches;
  Flask turns such an exception into an error response for the caller.
\<close>

datatype error =
    BadRequest
  | NotFound
  | ValueError
  | IndexError
  | BuildError
  | IntegrityError
  | CacheFault
  | LoadFault

text \<open>A JSON object of the catalog API, as far as the source reads it: string fields.\<close>

type_synonym json = "(string \<times> string) list"

text \<open>
  \<open>requests.get(api_url)\<close> followed by \<open>response.json()\<close>: a
  \<open>requests.exceptions.RequestException\<close> or the decoded object.
\<close>

datatype omdb_reply = RequestException | Json json

text \<open>The fitted pipeline in \<open>sentiment_model.joblib\<close>, used through two methods.\<close>

record model =
  predict_proba :: "string list \<Rightarrow> rat list list"
  model_predict :: "string list \<Rightarrow> int list"

text \<open>
  What lies outside the source: the model file, the catalog API, bcrypt, and the key that
  Flask-Caching derives inside \<open>cache.delete_memoized(movie_details, imdb_id)\<close> (or the
  exception that call raises). They are parameters. Flask-Caching builds the key of
  \<open>delete_memoized\<close> from the function and the arguments of the call; the key under which
  \<open>cache.cached\<close> stores a view is built from the request path (\<open>view_key\<close> below).
\<close>

record env =
  joblib_load :: "string \<Rightarrow> error + model"
  omdb_lookup :: "string \<Rightarrow> omdb_reply"
  generate_password_hash :: "string \<Rightarrow> string"
  memoized_key :: "string \<Rightarrow> error + string"

datatype response =
    RenderMovieDetails "json option" "(review \<times> user) list"
  | RenderProfile "review list" stats
  | RenderRegister
  | RedirectTo string "string option"
  | JsonSuccess string int rat

text \<open>
  The process-wide \<open>SimpleCache\<close> (\<open>CACHE_TYPE = 'simple'\<close>): a dictionary from key to expiry
  time and value, in insertion order.
\<close>

type_synonym simple_cache = "(string \<times> nat \<times> response) list"

text \<open>
  The two tables, the cache, the flashed messages, and a log of the identifiers looked up
  in the catalog.
\<close>

record state =
  users :: "user list"
  reviews :: "review list"
  cache :: simple_cache
  flashed :: "string list"
  lookups :: "string list"

text \<open>A fresh primary key: one more than the largest in the table.\<close>

definition next_id :: "nat list \<Rightarrow> nat" where
  "next_id ids = Suc (fold max ids 0)"

text \<open>\<open>load_user\<close>, and flask-login's \<open>current_user\<close> for a session that may name a user.\<close>

definition load_user :: "state \<Rightarrow> nat \<Rightarrow> user option" where
  "load_user st ident = find (\<lambda>u. uid u = ident) (users st)"

definition current_user :: "state \<Rightarrow> nat option \<Rightarrow> user option" where
  "current_user st session = (case session of None \<Rightarrow> None | Some i \<Rightarrow> load_user st i)"

text \<open>Python's truth value of an optional string: \<open>None\<close> and \<open>''\<close> are false.\<close>

definition truthy :: "string option \<Rightarrow> bool" where
  "truthy x = (case x of None \<Rightarrow> False | Some s \<Rightarrow> s \<noteq> [])"

subsection \<open>The cache\<close>

text \<open>\<open>SimpleCache.get\<close>: the value of an entry that has not expired.\<close>

definition cache_get :: "simple_cache \<Rightarrow> nat \<Rightarrow> string \<Rightarrow> response option" where
  "cache_get c now key =
     (case map_of c key of
        None \<Rightarrow> None
      | Some (expires, rv) \<Rightarrow> if expires = 0 \<or> now < expires then Some rv else None)"

text \<open>
  \<open>SimpleCache.set\<close> prunes before it stores. Once the cache holds more than its threshold
  of entries (500 unless \<open>CACHE_THRESHOLD\<close> is configured, and the source configures only
  \<open>CACHE_TYPE\<close>), the expired entries go; if that is not enough, entries go in the order of
  their expiry times, oldest first, until the threshold is met.
\<close>

definition threshold :: nat where
  "threshold = 500"

definition over_threshold :: "simple_cache \<Rightarrow> bool" where
  "over_threshold c = (threshold < length c)"

definition remove_expired :: "simple_cache \<Rightarrow> nat \<Rightarrow> simple_cache" where
  "remove_expired c now = filter (\<lambda>(key, expires, rv). \<not> expires < now) c"

definition remove_older :: "simple_cache \<Rightarrow> simple_cache" where
  "remove_older c =
     (let k_ordered = map fst (sort_key (\<lambda>(key, expires, rv). expires) c);
          removed = take (max 1 (length c - threshold)) k_ordered
      in filter (\<lambda>(key, entry). key \<notin> set removed) c)"

definition prune :: "simple_cache \<Rightarrow> nat \<Rightarrow> simple_cache" where
  "prune c now =
     (let c1 = (if over_threshold c then remove_expired c now else c)
      in if over_threshold c1 then remove_older c1 else c1)"

definition cache_set :: "simple_cache \<Rightarrow> nat \<Rightarrow> string \<Rightarrow> response \<Rightarrow> nat \<Rightarrow> simple_cache" where
  "cache_set c now key rv timeout = AList.update key (now + timeout, rv) (prune c now)"

text \<open>\<open>SimpleCache.delete\<close>: removing a key that is absent is not an error.\<close>

definition cache_delete :: "simple_cache \<Rightarrow> string \<Rightarrow> simple_cache" where
  "cache_delete c key = AList.delete key c"

text \<open>\<open>cache.delete_memoized(movie_details, imdb_id)\<close>.\<close>

definition delete_memoized :: "env \<Rightarrow> simple_cache \<Rightarrow> string \<Rightarrow> error + simple_cache" where
  "delete_memoized env c imdb =
     (case memoized_key env imdb of
        Inl e \<Rightarrow> Inl e
      | Inr key \<Rightarrow> Inr (cache_delete c key))"

text \<open>
  The key of \<open>@cache.cached(timeout=86400)\<close> on the route \<open>/app/movie/<imdb_id>\<close>: the
  default prefix \<open>view/\<close> followed by the request path.
\<close>

definition view_key :: "string \<Rightarrow> string" where
  "view_key imdb = ''view/'' @ ''/app/movie/'' @ imdb"

subsection \<open>Views\<close>

text \<open>\<open>order_by(Review.id.desc())\<close>.\<close>

definition order_desc :: "review list \<Rightarrow> review list" where
  "order_desc rs = rev (sort_key rid rs)"

text \<open>\<open>db.session.query(Review, User).join(User).filter(Review.imdb_id == imdb_id)\<close>, ordered.\<close>

definition reviews_with_users :: "state \<Rightarrow> string \<Rightarrow> (review \<times> user) list" where
  "reviews_with_users st imdb =
     concat (map (\<lambda>r. map (Pair r) (filter (\<lambda>u. uid u = user_id r) (users st)))
                 (order_desc (filter (\<lambda>r. imdb_id r = Some imdb) (reviews st))))"

text \<open>
  The value of \<open>movie_data\<close> after the \<open>try\<close> block of \<open>movie_details\<close>: \<open>None\<close> after a
  request exception or a reply whose \<open>Response\<close> field is the string \<open>False\<close>, the reply
  otherwise. \<open>if movie_data:\<close> then asks for a non-empty dictionary.
\<close>

definition movie_data_of :: "omdb_reply \<Rightarrow> json option" where
  "movie_data_of reply =
     (case reply of
        RequestException \<Rightarrow> None
      | Json d \<Rightarrow> if map_of d ''Response'' = Some ''False'' then None else Some d)"

definition has_data :: "json option \<Rightarrow> bool" where
  "has_data movie_data = (case movie_data of None \<Rightarrow> False | Some d \<Rightarrow> d \<noteq> [])"

text \<open>The body of \<open>movie_details\<close>, below its decorators.\<close>

definition movie_details_body :: "env \<Rightarrow> state \<Rightarrow> string \<Rightarrow> response \<times> state" where
  "movie_details_body env st imdb =
     (let reply = omdb_lookup env imdb;
          st1 = st\<lparr>lookups := lookups st @ [imdb]\<rparr>;
          st2 = (if reply = RequestException
                 then st1\<lparr>flashed := flashed st1 @ [''Error connecting to the movie database.'']\<rparr>
                 else st1);
          movie_data = movie_data_of reply;
          rs = (if has_data movie_data then reviews_with_users st2 imdb else [])
      in (RenderMovieDetails movie_data rs, st2))"

text \<open>
  \<open>movie_details\<close> as routed: \<open>login_required\<close> outside, the cache inside. A live entry is
  returned as it is; otherwise the body runs and whatever it returns is stored for 86400
  seconds.
\<close>

definition movie_details :: "env \<Rightarrow> nat \<Rightarrow> state \<Rightarrow> nat option \<Rightarrow> string \<Rightarrow> response \<times> state" where
  "movie_details env now st session imdb =
     (case current_user st session of
        None \<Rightarrow> (RedirectTo ''login'' None, st)
      | Some u \<Rightarrow>
          (case cache_get (cache st) now (view_key imdb) of
             Some rv \<Rightarrow> (rv, st)
           | None \<Rightarrow>
               (let (rv, st1) = movie_details_body env st imdb
                in (rv, st1\<lparr>cache := cache_set (cache st1) now (view_key imdb) rv 86400\<rparr>))))"

definition profile :: "state \<Rightarrow> nat option \<Rightarrow> response" where
  "profile st session =
     (case current_user st session of
        None \<Rightarrow> RedirectTo ''login'' None
      | Some u \<Rightarrow>
          (let rs = order_desc (filter (\<lambda>r. user_id r = uid u) (reviews st))
           in RenderProfile rs (profile_stats rs)))"

subsection \<open>Submitting a review\<close>

record predict_form =
  review_text :: "string option"
  form_imdb_id :: "string option"
  is_ajax :: "string option"

text \<open>\<open>np.max\<close> over every entry of a two-dimensional array; it raises on an empty one.\<close>

definition np_max :: "rat list list \<Rightarrow> error + rat" where
  "np_max a = (case concat a of [] \<Rightarrow> Inl ValueError | x # xs \<Rightarrow> Inr (fold max xs x))"

definition predict :: "env \<Rightarrow> model \<Rightarrow> state \<Rightarrow> nat option \<Rightarrow> predict_form \<Rightarrow> (error + response) \<times> state" where
  "predict env m st session form =
     (case current_user st session of
        None \<Rightarrow> (Inr (RedirectTo ''login'' None), st)
      | Some u \<Rightarrow>
     (case review_text form of
        None \<Rightarrow> (Inl BadRequest, st)
      | Some text \<Rightarrow>
     (case np_max (predict_proba m [text]) of
        Inl e \<Rightarrow> (Inl e, st)
      | Inr conf \<Rightarrow>
     (case model_predict m [text] of
        [] \<Rightarrow> (Inl IndexError, st)
      | prediction # _ \<Rightarrow>
     (let prediction_text = (if prediction = 1 then ''Positive'' else ''Negative'');
          review = \<lparr>rid = next_id (map rid (reviews st)), content = text,
                    sentiment = prediction_text, confidence = conf,
                    user_id = uid u, imdb_id = form_imdb_id form\<rparr>;
          st1 = st\<lparr>reviews := reviews st @ [review]\<rparr>
      in case (case form_imdb_id form of
                 None \<Rightarrow> Inr (cache st1)
               | Some imdb \<Rightarrow>
                   if imdb \<noteq> [] then delete_memoized env (cache st1) imdb
                   else Inr (cache st1)) of
           Inl e \<Rightarrow> (Inl e, st1)
         | Inr c \<Rightarrow>
             (let st2 = st1\<lparr>cache := c\<rparr>
              in if is_ajax form = Some ''true''
                 then (Inr (JsonSuccess prediction_text prediction conf), st2)
                 else (let st3 = st2\<lparr>flashed := flashed st2
                                  @ [''Your review has been analyzed and saved!'']\<rparr>
                       in case form_imdb_id form of
                            None \<Rightarrow> (Inl BuildError, st3)
                          | Some imdb \<Rightarrow>
                              (Inr (RedirectTo ''movie_details'' (Some imdb)), st3))))))))"

subsection \<open>Moderation\<close>

definition delete_review :: "env \<Rightarrow> state \<Rightarrow> nat option \<Rightarrow> nat \<Rightarrow> (error + response) \<times> state" where
  "delete_review env st session review_id =
     (case current_user st session of
        None \<Rightarrow> (Inr (RedirectTo ''login'' None), st)
      | Some u \<Rightarrow>
          if \<not> is_admin u
          then (Inr (RedirectTo ''app_index'' None),
                st\<lparr>flashed := flashed st
                      @ [''You do not have permission to access this page.'']\<rparr>)
          else
     (case find (\<lambda>r. rid r = review_id) (reviews st) of
        None \<Rightarrow> (Inl NotFound, st)
      | Some review_to_delete \<Rightarrow>
     (case (if truthy (imdb_id review_to_delete)
            then (case imdb_id review_to_delete of
                    None \<Rightarrow> Inr (cache st)
                  | Some imdb \<Rightarrow> delete_memoized env (cache st) imdb)
            else Inr (cache st)) of
        Inl e \<Rightarrow> (Inl e, st)
      | Inr c \<Rightarrow>
          (Inr (RedirectTo ''admin'' None),
           st\<lparr>cache := c,
               reviews := filter (\<lambda>r. rid r \<noteq> review_id) (reviews st),
               flashed := flashed st @ [''Review has been deleted.'']\<rparr>))))"

subsection \<open>Registration\<close>

datatype http_method = GET | POST

record register_form =
  form_username :: "string option"
  form_email :: "string option"
  form_password :: "string option"

text \<open>
  bcrypt refuses an absent or empty password; the commit refuses a missing or duplicate
  user name or email (\<open>nullable=False\<close>, \<open>unique=True\<close>).
\<close>

definition register ::
  "env \<Rightarrow> state \<Rightarrow> nat option \<Rightarrow> http_method \<Rightarrow> register_form \<Rightarrow> (error + response) \<times> state" where
  "register env st session method form =
     (case current_user st session of
        Some u \<Rightarrow> (Inr (RedirectTo ''app_index'' None), st)
      | None \<Rightarrow>
          if method = POST then
            (let is_admin_user = (if form_email form = Some ''admin@admin.com'' then True else False)
             in case form_password form of
                  None \<Rightarrow> (Inl ValueError, st)
                | Some pw \<Rightarrow>
                    if pw = [] then (Inl ValueError, st)
                    else
                      (let hashed_password = generate_password_hash env pw
                       in case (form_username form, form_email form) of
                            (Some name, Some mail) \<Rightarrow>
                              if name \<in> set (map username (users st))
                                 \<or> mail \<in> set (map email (users st))
                              then (Inl IntegrityError, st)
                              else (Inr (RedirectTo ''login'' None),
                                    st\<lparr>users := users st
                                          @ [\<lparr>uid = next_id (map uid (users st)),
                                              username = name, email = mail,
                                              password = hashed_password,
                                              is_admin = is_admin_user\<rparr>],
                                        flashed := flashed st
                                          @ [''Your account has been created! You can now log in.'']\<rparr>)
                          | _ \<Rightarrow> (Inl IntegrityError, st)))
          else (Inr RenderRegister, st))"

subsection \<open>The process\<close>

datatype request =
    Register "nat option" http_method register_form
  | Profile "nat option"
  | MovieDetails "nat option" string
  | Predict "nat option" predict_form
  | DeleteReview "nat option" nat

text \<open>
  The route \<open>/app/movie/<string:imdb_id>\<close> matches a non-empty identifier without a slash;
  any other path is answered with 404 before a view runs.
\<close>

definition dispatch :: "env \<Rightarrow> model \<Rightarrow> nat \<Rightarrow> state \<Rightarrow> request \<Rightarrow> (error + response) \<times> state" where
  "dispatch env m now st req =
     (case req of
        Register s meth f \<Rightarrow> register env st s meth f
      | Profile s \<Rightarrow> (Inr (profile st s), st)
      | MovieDetails s imdb \<Rightarrow>
          if imdb = [] \<or> CHR ''/'' \<in> set imdb then (Inl NotFound, st)
          else (let (rv, st1) = movie_details env now st s imdb in (Inr rv, st1))
      | Predict s f \<Rightarrow> predict env m st s f
      | DeleteReview s i \<Rightarrow> delete_review env st s i)"

text \<open>Requests arrive one after another, each at its time.\<close>

fun serve :: "env \<Rightarrow> model \<Rightarrow> state \<Rightarrow> (nat \<times> request) list \<Rightarrow> (error + response) list \<times> state" where
  "serve env m st [] = ([], st)"
| "serve env m st ((now, req) # rest) =
     (let (r, st1) = dispatch env m now st req;
          (rs, st2) = serve env m st1 rest
      in (r # rs, st2))"

text \<open>
  The module as it is imported: \<open>model = joblib.load('sentiment_model.joblib')\<close> runs at the
  top level, above every route and unguarded; only then are the handlers defined and the
  requests served.
\<close>

definition run_app :: "env \<Rightarrow> state \<Rightarrow> (nat \<times> request) list \<Rightarrow> error + ((error + response) list \<times> state)" where
  "run_app env st reqs =
     (case joblib_load env ''sentiment_model.joblib'' of
        Inl e \<Rightarrow> Inl e
      | Inr m \<Rightarrow> Inr (serve env m st reqs))"


section \<open>Sample data\<close>

text \<open>
  A small world for the concrete instances below: a two-class model that finds every text
  positive with probability 9/10, a catalog that knows one film, and a cache library that
  derives some key of its own for \<open>delete_memoized\<close>.
\<close>

definition sample_model :: model where
  "sample_model =
     \<lparr>predict_proba = (\<lambda>texts. map (\<lambda>_. [1 / 10, 9 / 10]) texts),
      model_predict = (\<lambda>texts. map (\<lambda>_. 1) texts)\<rparr>"

definition sample_env :: env where
  "sample_env =
     \<lparr>joblib_load = (\<lambda>_. Inr sample_model),
      omdb_lookup = (\<lambda>i. if i = ''tt0111161''
                          then Json [(''Response'', ''True''), (''Title'', ''The Shawshank Redemption'')]
                          else Json [(''Response'', ''False''), (''Error'', ''Incorrect IMDb ID.'')]),
      generate_password_hash = (\<lambda>pw. ''$2b$12$'' @ pw),
      memoized_key = (\<lambda>i. Inr (''memoized/'' @ i))\<rparr>"

definition alice :: user where
  "alice = \<lparr>uid = 2, username = ''alice'', email = ''alice@example.com'',
            password = ''$2b$12$secret'', is_admin = False\<rparr>"

definition admin_user :: user where
  "admin_user = \<lparr>uid = 3, username = ''admin'', email = ''admin@admin.com'',
                 password = ''$2b$12$secret'', is_admin = True\<rparr>"

definition empty_state :: state where
  "empty_state = \<lparr>users = [], reviews = [], cache = [], flashed = [], lookups = []\<rparr>"

definition sample_state :: state where
  "sample_state = empty_state\<lparr>users := [alice, admin_user]\<rparr>"

definition sample_form :: predict_form where
  "sample_form = \<lparr>review_text = Some ''this movie was wonderful'',
                   form_imdb_id = Some ''tt0111161'', is_ajax = Some ''true''\<rparr>"

definition sample_review :: review where
  "sample_review =
     \<lparr>rid = 1, content = ''this movie was wonderful'', sentiment = ''Positive'',
      confidence = 9 / 10, user_id = 2, imdb_id = Some ''tt0111161''\<rparr>"

text \<open>What the sample catalog answers for the film it knows.\<close>

definition sample_data :: json where
  "sample_data = [(''Response'', ''True''), (''Title'', ''The Shawshank Redemption'')]"

text \<open>
  Alice opens the page of the film at time 0, before any review exists, and then submits
  her review.
\<close>

definition populated_state :: state where
  "populated_state = snd (movie_details sample_env 0 sample_state (Some 2) ''tt0111161'')"

definition after_submission :: state where
  "after_submission = snd (predict sample_env sample_model populated_state (Some 2) sample_form)"

text \<open>
  The administrator opens the page at time 0 while the store holds alice's review, and
  then deletes the review.
\<close>

definition listed_state :: state where
  "listed_state =
     snd (movie_details sample_env 0 (sample_state\<lparr>reviews := [sample_review]\<rparr>) (Some 3)
            ''tt0111161'')"

definition after_deletion :: state where
  "after_deletion = snd (delete_review sample_env listed_state (Some 3) 1)"

text \<open>
  A full cache: alice has opened the page of the film at time 0 and then, at the times 1
  to 500, the pages of 500 identifiers that the catalog does not know.
\<close>

definition filler :: "nat \<Rightarrow> string" where
  "filler i = ''nm'' @ replicate i (CHR ''0'')"

definition filler_cache :: simple_cache where
  "filler_cache =
     map (\<lambda>i. (view_key (filler i), (86401 + i, RenderMovieDetails None []))) [0..<500]"

definition crowded_state :: state where
  "crowded_state =
     sample_state\<lparr>cache :=
       (view_key ''tt0111161'', (86400, RenderMovieDetails (Some sample_data) []))
       # filler_cache\<rparr>"

text \<open>The requests that lead from the sample state to the full cache.\<close>

definition crowd_requests :: "(nat \<times> request) list" where
  "crowd_requests =
     (0, MovieDetails (Some 2) ''tt0111161'')
     # map (\<lambda>i. (Suc i, MovieDetails (Some 2) (filler i))) [0..<500]"

section \<open>Rounding lemmas\<close>

lemma pow2_pos: "0 < pow2 e"
  by (simp add: pow2_def)

lemma pow2_add: "pow2 (a + b) = pow2 a * pow2 b"
proof -
  have "pow2 e = 2 powi e" for e
    by (simp add: pow2_def power_int_def field_simps)
  then show ?thesis by (simp add: power_int_add)
qed

lemma pow2_neg: "pow2 (- e) = 1 / pow2 e"
  using pow2_add [of e "- e"] pow2_pos [of e] by (simp add: pow2_def field_simps)

lemma pow2_mono: "a \<le> b \<Longrightarrow> pow2 a \<le> pow2 b"
proof -
  assume "a \<le> b"
  have "pow2 b = pow2 a * pow2 (b - a)" using pow2_add [of a "b - a"] by simp
  moreover have "1 \<le> pow2 (b - a)" using \<open>a \<le> b\<close> by (simp add: pow2_def)
  ultimately show ?thesis using pow2_pos [of a] by simp
qed

lemma bit_length_bounds:
  "0 < n \<Longrightarrow> 2 ^ (bit_length n - 1) \<le> n \<and> n < 2 ^ bit_length n"
proof (induction n rule: bit_length.induct)
  case (1 n)
  define h where "h = n div 2"
  have n: "n = 2 * h + n mod 2" and m: "n mod 2 < 2" by (simp_all add: h_def)
  have bl: "bit_length n = Suc (bit_length h)"
    using "1.prems" by (subst bit_length.simps) (simp add: h_def)
  show ?case
  proof (cases "h = 0")
    case True
    then have "bit_length h = 0" by (subst bit_length.simps) simp
    then have "2 ^ (bit_length n - 1) = (1::nat)" "2 ^ bit_length n = (2::nat)"
      by (simp_all add: bl)
    moreover have "n = 1" using n m True "1.prems" by linarith
    ultimately show ?thesis by simp
  next
    case False
    then have pos: "0 < h" by simp
    define A B where "A = (2::nat) ^ (bit_length h - 1)" and "B = (2::nat) ^ bit_length h"
    from "1.IH" "1.prems" pos have ih: "A \<le> h" "h < B"
      by (simp_all add: h_def A_def B_def)
    have "0 < bit_length h" using pos by (subst bit_length.simps) simp
    then have "B = 2 * A" by (cases "bit_length h") (simp_all add: A_def B_def)
    then have "2 ^ (bit_length n - 1) = B" "2 ^ bit_length n = 2 * B"
      by (simp_all add: bl B_def)
    moreover have "B \<le> n" "n < 2 * B" using ih n m \<open>B = 2 * A\<close> by linarith+
    ultimately show ?thesis by simp
  qed
qed

lemma rne_error:
  assumes "0 < b"
  shows "\<bar>of_nat (rne a b) - (of_nat a / of_nat b :: rat)\<bar> \<le> 1 / 2"
proof -
  define q r where "q = a div b" and "r = a mod b"
  have a: "a = q * b + r" and r: "r < b" using assms by (simp_all add: q_def r_def)
  have b0: "(0::rat) < of_nat b" using assms by simp
  have quo: "(of_nat a / of_nat b :: rat) = of_nat q + of_nat r / of_nat b"
    using b0 by (simp add: a field_simps)
  have res: "rne a b = q \<and> 2 * r \<le> b \<or> rne a b = q + 1 \<and> b \<le> 2 * r"
    by (auto simp: rne_def Let_def q_def r_def)
  then show ?thesis
  proof
    assume h: "rne a b = q \<and> 2 * r \<le> b"
    then have "(of_nat (2 * r) :: rat) \<le> of_nat b" by (simp only: of_nat_le_iff)
    then have "(of_nat r / of_nat b :: rat) \<le> 1 / 2" using b0 by (simp add: field_simps)
    with h show ?thesis by (simp add: quo)
  next
    assume h: "rne a b = q + 1 \<and> b \<le> 2 * r"
    then have "(of_nat b :: rat) \<le> of_nat (2 * r)" by (simp only: of_nat_le_iff)
    then have "(1 / 2 :: rat) \<le> of_nat r / of_nat b" using b0 by (simp add: field_simps)
    moreover have "(of_nat r / of_nat b :: rat) < 1" using r b0 by simp
    ultimately show ?thesis using h by (simp add: quo)
  qed
qed

lemma pow2_le_iff:
  assumes "0 < b"
  shows "pow2_le d a b \<longleftrightarrow> pow2 d * of_nat b \<le> (of_nat a :: rat)"
proof (cases "0 \<le> d")
  case True
  have "(2 ^ nat d * b \<le> a) = ((of_nat (2 ^ nat d * b) :: rat) \<le> of_nat a)"
    by (simp only: of_nat_le_iff)
  then show ?thesis using True by (simp add: pow2_le_def pow2_def)
next
  case False
  have "(b \<le> a * 2 ^ nat (- d)) = ((of_nat b :: rat) \<le> of_nat (a * 2 ^ nat (- d)))"
    by (simp only: of_nat_le_iff)
  then show ?thesis using False by (simp add: pow2_le_def pow2_def field_simps)
qed

lemma ilog2_lower:
  assumes "0 < a" "0 < b"
  shows "pow2 (ilog2 a b) * of_nat b \<le> (of_nat a :: rat)"
proof (cases "pow2_le (int (bit_length a) - int (bit_length b)) a b")
  case True
  then show ?thesis using pow2_le_iff [OF assms(2)] by (simp add: ilog2_def Let_def)
next
  case False
  let ?la = "bit_length a" and ?lb = "bit_length b"
  have e: "ilog2 a b = int ?la - int ?lb - 1" using False by (simp add: ilog2_def Let_def)
  have la: "2 ^ (?la - 1) \<le> a" and lb: "b < 2 ^ ?lb"
    using bit_length_bounds assms by auto
  have la0: "0 < ?la" using assms(1) by (subst bit_length.simps) simp
  have "b \<le> 2 ^ ?lb" using lb by simp
  then have "(of_nat b :: rat) \<le> of_nat (2 ^ ?lb)" by (simp only: of_nat_le_iff)
  then have b': "(of_nat b :: rat) \<le> pow2 (int ?lb)" by (simp add: pow2_def)
  have "(of_nat (2 ^ (?la - 1)) :: rat) \<le> of_nat a" using la by (simp only: of_nat_le_iff)
  then have a': "pow2 (int ?la - 1) \<le> (of_nat a :: rat)"
    using la0 by (simp add: pow2_def nat_diff_distrib)
  have "pow2 (ilog2 a b) * of_nat b \<le> pow2 (ilog2 a b) * pow2 (int ?lb)"
    using b' pow2_pos [of "ilog2 a b"] by simp
  also have "\<dots> = pow2 (int ?la - 1)"
    using pow2_add [of "ilog2 a b" "int ?lb"] by (simp add: e)
  finally show ?thesis using a' by simp
qed

lemma ilog2_less:
  assumes "0 < a" "0 < b"
  shows "(of_nat a :: rat) < pow2 (ilog2 a b + 1) * of_nat b"
proof (cases "pow2_le (int (bit_length a) - int (bit_length b)) a b")
  case False
  then have "ilog2 a b + 1 = int (bit_length a) - int (bit_length b)"
    by (simp add: ilog2_def Let_def)
  then show ?thesis using False pow2_le_iff [OF assms(2)] by (simp add: not_le)
next
  case True
  let ?la = "bit_length a" and ?lb = "bit_length b"
  have e: "ilog2 a b = int ?la - int ?lb" using True by (simp add: ilog2_def Let_def)
  have la: "a < 2 ^ ?la" and lb: "2 ^ (?lb - 1) \<le> b"
    using bit_length_bounds assms by auto
  have lb0: "0 < ?lb" using assms(2) by (subst bit_length.simps) simp
  have "(of_nat a :: rat) < of_nat (2 ^ ?la)" using la by (simp only: of_nat_less_iff)
  then have a': "(of_nat a :: rat) < pow2 (int ?la)" by (simp add: pow2_def)
  have "(of_nat (2 ^ (?lb - 1)) :: rat) \<le> of_nat b" using lb by (simp only: of_nat_le_iff)
  then have b': "pow2 (int ?lb - 1) \<le> (of_nat b :: rat)"
    using lb0 by (simp add: pow2_def nat_diff_distrib)
  have "pow2 (int ?la) = pow2 (ilog2 a b + 1) * pow2 (int ?lb - 1)"
    using pow2_add [of "ilog2 a b + 1" "int ?lb - 1"] by (simp add: e)
  also have "\<dots> \<le> pow2 (ilog2 a b + 1) * of_nat b"
    using b' pow2_pos [of "ilog2 a b + 1"] by simp
  finally show ?thesis using a' by simp
qed

text \<open>
  With \<open>ilog2_lower\<close> this places the scaled quotient in \<open>[2 ^ 52, 2 ^ 53)\<close>, so the mantissa
  that \<open>fl\<close> rounds to has 53 bits and \<open>fl a b\<close> is the double nearest to \<open>a / b\<close>.
\<close>

lemma fval_fl_scaled:
  assumes "0 < a" "0 < b"
  shows "\<exists>n. fval (fl a b) = of_nat n * pow2 (ilog2 a b - 52)
     \<and> \<bar>of_nat n - (of_nat a / of_nat b) * pow2 (52 - ilog2 a b)\<bar> \<le> (1 / 2 :: rat)"
proof (cases "0 \<le> 52 - ilog2 a b")
  case True
  let ?k = "nat (52 - ilog2 a b)"
  have p: "pow2 (52 - ilog2 a b) = 2 ^ ?k" using True by (simp add: pow2_def)
  have "fl a b = PyFloat (int (rne (a * 2 ^ ?k) b)) (- (52 - ilog2 a b))"
    using True assms by (simp add: fl_def Let_def)
  then have "fval (fl a b) = of_nat (rne (a * 2 ^ ?k) b) * pow2 (ilog2 a b - 52)"
    by (simp add: fval_def)
  moreover have "\<bar>of_nat (rne (a * 2 ^ ?k) b) - (of_nat a / of_nat b) * pow2 (52 - ilog2 a b)\<bar>
      \<le> (1 / 2 :: rat)"
    using rne_error [OF assms(2), of "a * 2 ^ ?k"] by (simp add: p)
  ultimately show ?thesis by blast
next
  case False
  let ?k = "nat (- (52 - ilog2 a b))"
  have p: "pow2 (52 - ilog2 a b) = 1 / 2 ^ ?k" using False by (simp add: pow2_def)
  have "fl a b = PyFloat (int (rne a (b * 2 ^ ?k))) (- (52 - ilog2 a b))"
    using False assms by (simp add: fl_def Let_def)
  then have "fval (fl a b) = of_nat (rne a (b * 2 ^ ?k)) * pow2 (ilog2 a b - 52)"
    by (simp add: fval_def)
  moreover have "\<bar>of_nat (rne a (b * 2 ^ ?k)) - (of_nat a / of_nat b) * pow2 (52 - ilog2 a b)\<bar>
      \<le> (1 / 2 :: rat)"
    using rne_error [of "b * 2 ^ ?k" a] assms(2) by (simp add: p)
  ultimately show ?thesis by blast
qed

lemma fl_error:
  assumes "0 < a" "0 < b"
  shows "\<bar>fval (fl a b) - of_nat a / of_nat b\<bar> \<le> pow2 (ilog2 a b - 53)"
proof -
  let ?e = "ilog2 a b" and ?x = "(of_nat a / of_nat b :: rat)"
  from fval_fl_scaled [OF assms] obtain n where
    v: "fval (fl a b) = of_nat n * pow2 (?e - 52)" and
    d: "\<bar>of_nat n - ?x * pow2 (52 - ?e)\<bar> \<le> (1 / 2 :: rat)" by blast
  have inv: "pow2 (52 - ?e) * pow2 (?e - 52) = 1" using pow2_add [of "52 - ?e" "?e - 52"]
    by (simp add: pow2_def)
  have "fval (fl a b) - ?x = (of_nat n - ?x * pow2 (52 - ?e)) * pow2 (?e - 52)"
    using inv by (simp add: v algebra_simps)
  then have "\<bar>fval (fl a b) - ?x\<bar> = \<bar>of_nat n - ?x * pow2 (52 - ?e)\<bar> * pow2 (?e - 52)"
    using pow2_pos [of "?e - 52"] by (simp add: abs_mult)
  also have "\<dots> \<le> (1 / 2) * pow2 (?e - 52)"
    using d pow2_pos [of "?e - 52"] by (simp add: mult_right_mono)
  also have "\<dots> = pow2 (?e - 53)"
    using pow2_add [of "?e - 53" 1] by (simp add: pow2_def)
  finally show ?thesis .
qed

lemma fl_rel_error:
  assumes "0 < a" "0 < b"
  shows "\<bar>fval (fl a b) - of_nat a / of_nat b\<bar> \<le> (of_nat a / of_nat b) / 2 ^ 53"
proof -
  have "pow2 (ilog2 a b - 53) = pow2 (ilog2 a b) / 2 ^ 53"
    using pow2_add [of "ilog2 a b" "- 53"] by (simp add: pow2_def)
  moreover have "pow2 (ilog2 a b) \<le> (of_nat a / of_nat b :: rat)"
    using ilog2_lower [OF assms] assms(2) by (simp add: field_simps)
  ultimately show ?thesis using fl_error [OF assms] by (simp add: field_simps)
qed

lemma rne_exact: "0 < b \<Longrightarrow> rne (q * b) b = q"
  by (simp add: rne_def)

lemma pow2_less_imp: "pow2 e \<le> x \<Longrightarrow> x < pow2 m \<Longrightarrow> e < m"
proof (rule ccontr)
  assume a: "pow2 e \<le> x" "x < pow2 m" and "\<not> e < m"
  then have "pow2 m \<le> pow2 e" by (simp add: pow2_mono)
  with a show False by simp
qed

lemma mant_fl_nonneg: "0 \<le> mant (fl a b)"
  by (simp add: fl_def Let_def)

lemma fval_fround: "fval (fround a b) = of_int (sgn a) * fval (fl (nat \<bar>a\<bar>) b)"
  by (simp add: fround_def fval_def Let_def)

lemma fround_error:
  assumes "0 < b"
  shows "\<bar>fval (fround a b) - of_int a / of_nat b\<bar> \<le> \<bar>of_int a / of_nat b\<bar> / 2 ^ 53"
proof (cases "a = 0")
  case True
  then show ?thesis by (simp add: fval_fround)
next
  case False
  define n where "n = nat \<bar>a\<bar>"
  have n: "0 < n" using False by (simp add: n_def)
  have ai: "a = sgn a * int n" by (simp add: n_def mult_sgn_abs)
  have "(of_int a :: rat) = of_int (sgn a * int n)" by (rule arg_cong [OF ai])
  then have a: "(of_int a :: rat) = of_int (sgn a) * of_nat n"
    by (simp only: of_int_mult of_int_of_nat_eq)
  have "a < 0 \<or> 0 < a" using False by linarith
  then have s: "\<bar>of_int (sgn a) :: rat\<bar> = 1" by auto
  have fv: "fval (fround a b) = of_int (sgn a) * fval (fl n b)"
    by (simp add: fval_fround n_def)
  have "fval (fround a b) - of_int a / of_nat b
      = of_int (sgn a) * (fval (fl n b) - of_nat n / of_nat b)"
    unfolding fv a by (simp add: algebra_simps)
  then have "\<bar>fval (fround a b) - of_int a / of_nat b\<bar> = \<bar>fval (fl n b) - of_nat n / of_nat b\<bar>"
    by (simp add: abs_mult s)
  also have "\<dots> \<le> (of_nat n / of_nat b) / 2 ^ 53" by (rule fl_rel_error [OF n assms])
  also have "(of_nat n / of_nat b :: rat) = \<bar>of_int a / of_nat b\<bar>"
    by (simp add: n_def abs_divide)
  finally show ?thesis .
qed

lemma truediv_pos: "0 < b \<Longrightarrow> truediv a b = fround a (nat b)"
  by (simp add: truediv_def)

lemma truediv_error:
  assumes "0 < b"
  shows "\<bar>fval (truediv a b) - of_int a / of_int b\<bar> \<le> \<bar>of_int a / of_int b\<bar> / 2 ^ 53"
  using fround_error [of "nat b" a] assms by (simp add: truediv_pos)

lemma fmul_int_error:
  "\<bar>fval (fmul_int x n) - fval x * of_int n\<bar> \<le> \<bar>fval x * of_int n\<bar> / 2 ^ 53"
proof (cases "0 \<le> expo x")
  case True
  have e: "fval x * of_int n = of_int (mant x * n * 2 ^ nat (expo x)) / of_nat 1"
    using True by (simp add: fval_def pow2_def)
  have f: "fmul_int x n = fround (mant x * n * 2 ^ nat (expo x)) 1"
    using True by (simp add: fmul_int_def)
  show ?thesis unfolding e f by (rule fround_error) simp
next
  case False
  have e: "fval x * of_int n = of_int (mant x * n) / of_nat (2 ^ nat (- expo x))"
    using False by (simp add: fval_def pow2_def)
  have f: "fmul_int x n = fround (mant x * n) (2 ^ nat (- expo x))"
    using False by (simp add: fmul_int_def)
  show ?thesis unfolding e f by (rule fround_error) simp
qed

lemma fceil_eq: "fceil x = \<lceil>fval x\<rceil>"
proof (cases "0 \<le> expo x")
  case True
  have "fval x = of_int (mant x * 2 ^ nat (expo x))"
    using True by (simp add: fval_def pow2_def)
  then show ?thesis using True by (simp only: fceil_def ceiling_of_int if_True)
next
  case False
  have "fval x = of_int (mant x) / of_int (2 ^ nat (- expo x))"
    using False by (simp add: fval_def pow2_def)
  then show ?thesis using False by (simp only: fceil_def ceiling_divide_eq_div if_False)
qed

text \<open>
  The percentage \<open>(count / total) * 100\<close> of \<open>profile\<close>: two roundings, so within one part
  in \<open>2 ^ 51\<close> of the exact \<open>100 * count / total\<close>.
\<close>

lemma percent_error:
  assumes "0 < t"
  shows "\<bar>fval (fmul_int (truediv (int p) (int t)) 100) - 100 * of_nat p / of_nat t\<bar>
           \<le> (100 * of_nat p / of_nat t) / 2 ^ 51"
proof -
  define X :: rat where "X = of_nat p / of_nat t"
  define q where "q = fval (truediv (int p) (int t))"
  define v where "v = fval (fmul_int (truediv (int p) (int t)) 100)"
  define Y :: rat where "Y = X / 2 ^ 53"
  have X0: "0 \<le> X" by (simp add: X_def)
  have Y0: "0 \<le> Y" using X0 by (simp add: Y_def)
  have "\<bar>q - X\<bar> \<le> \<bar>X\<bar> / 2 ^ 53"
    using truediv_error [of "int t" "int p"] assms by (simp add: q_def X_def)
  then have q: "\<bar>q - X\<bar> \<le> Y" using X0 by (simp add: Y_def)
  then have qa: "\<bar>q\<bar> \<le> X + Y" using X0 by linarith
  have "\<bar>v - q * 100\<bar> \<le> \<bar>q * 100\<bar> / 2 ^ 53"
    using fmul_int_error [of "truediv (int p) (int t)" 100] by (simp add: v_def q_def)
  also have "\<bar>q * 100\<bar> / 2 ^ 53 = 100 * (\<bar>q\<bar> / 2 ^ 53)" by (simp add: abs_mult)
  also have "\<dots> \<le> 100 * ((X + Y) / 2 ^ 53)"
    using qa by (simp add: divide_right_mono)
  finally have v: "\<bar>v - q * 100\<bar> \<le> 100 * ((X + Y) / 2 ^ 53)" .
  have "Y / 2 ^ 53 \<le> Y" using Y0 by (simp add: field_simps)
  then have "100 * ((X + Y) / 2 ^ 53) \<le> 200 * Y" by (simp add: Y_def add_divide_distrib)
  with v have "\<bar>v - q * 100\<bar> \<le> 200 * Y" by linarith
  with q have "\<bar>v - 100 * X\<bar> \<le> 300 * Y" by linarith
  also have "\<dots> \<le> 400 * Y" using Y0 by simp
  also have "\<dots> = (100 * X) / 2 ^ 51" by (simp add: Y_def)
  finally show ?thesis by (simp add: v_def X_def)
qed


lemmas float_eval = truediv_def fround_def fl_def ilog2_def pow2_le_def rne_def
  bit_length.simps fceil_def fmul_int_def fval_def pow2_def Let_def

lemma profile_stats_sample:
  "profile_stats sample_reviews =
     \<lparr>total = 3, positive = 2, negative = 1,
      positive_percent = PyFl (PyFloat 4691249611844266 (- 46)),
      negative_percent = PyFl (PyFloat 4691249611844266 (- 47))\<rparr>"
proof -
  have "fmul_int (truediv 2 3) 100 = PyFloat 4691249611844266 (- 46)"
    by (simp add: float_eval)
  moreover have "fmul_int (truediv 1 3) 100 = PyFloat 4691249611844266 (- 47)"
    by (simp add: float_eval)
  ultimately show ?thesis by (simp add: profile_stats_def sample_reviews_def)
qed

lemma profile_stats_counts:
  "total (profile_stats rs) = length rs"
  "positive (profile_stats rs) = length (filter (\<lambda>r. sentiment r = ''Positive'') rs)"
  "negative (profile_stats rs) = length rs - length (filter (\<lambda>r. sentiment r = ''Positive'') rs)"
  by (simp_all add: profile_stats_def Let_def)

lemma profile_stats_empty:
  "profile_stats [] =
     \<lparr>total = 0, positive = 0, negative = 0,
      positive_percent = PyInt 0, negative_percent = PyInt 0\<rparr>"
  by (simp add: profile_stats_def)

lemma profile_stats_percents:
  assumes "rs \<noteq> []"
  shows "num_val (positive_percent (profile_stats rs))
           = fval (fmul_int (truediv (int (positive (profile_stats rs))) (int (length rs))) 100)"
    and "num_val (negative_percent (profile_stats rs))
           = fval (fmul_int (truediv (int (negative (profile_stats rs))) (int (length rs))) 100)"
  using assms by (simp_all add: profile_stats_def Let_def)

section \<open>Aggregation\<close>

text \<open>
  C4, as the specification states it, fails: the percentages are Python floats, and
  \<open>(2 / 3) * 100\<close> is the double 66.66666666666666, which is neither the exact
  \<open>100 * 2 / 3\<close> nor the double that \<open>100 * 2 / 3\<close> evaluates to in Python
  (66.66666666666667).
\<close>

theorem profile_percent_counterexample:
  "num_val (positive_percent (profile_stats sample_reviews))
     \<noteq> 100 * of_nat (positive (profile_stats sample_reviews))
         / of_nat (total (profile_stats sample_reviews))
   \<and> num_val (positive_percent (profile_stats sample_reviews))
     \<noteq> fval (truediv (100 * int (positive (profile_stats sample_reviews)))
                (int (total (profile_stats sample_reviews))))"
proof -
  have "fval (truediv (100 * 2) 3) = 4691249611844267 / 2 ^ 46"
    by (simp add: float_eval)
  then show ?thesis by (simp add: profile_stats_sample fval_def pow2_def)
qed

text \<open>
  C4, amended: for every sequence of reviews, \<open>total\<close> is its length, \<open>positive\<close> the
  number of reviews whose sentiment is the string \<open>Positive\<close>, \<open>negative\<close> the difference
  \<open>total - positive\<close> (and \<open>positive \<le> total\<close>); all five fields are 0 for the empty
  sequence; for a non-empty one each percentage is \<open>(count / total) * 100\<close> in double
  arithmetic, within one part in \<open>2 ^ 51\<close> of the exact \<open>100 * count / total\<close>.
\<close>

theorem profile_stats_aggregation:
  "total (profile_stats rs) = length rs
   \<and> positive (profile_stats rs) = length (filter (\<lambda>r. sentiment r = ''Positive'') rs)
   \<and> positive (profile_stats rs) \<le> total (profile_stats rs)
   \<and> negative (profile_stats rs) = total (profile_stats rs) - positive (profile_stats rs)
   \<and> (rs = [] \<longrightarrow> profile_stats rs =
         \<lparr>total = 0, positive = 0, negative = 0,
          positive_percent = PyInt 0, negative_percent = PyInt 0\<rparr>)
   \<and> (rs \<noteq> [] \<longrightarrow>
         \<bar>num_val (positive_percent (profile_stats rs))
            - 100 * of_nat (positive (profile_stats rs)) / of_nat (total (profile_stats rs))\<bar>
           \<le> (100 * of_nat (positive (profile_stats rs)) / of_nat (total (profile_stats rs))) / 2 ^ 51
       \<and> \<bar>num_val (negative_percent (profile_stats rs))
            - 100 * of_nat (negative (profile_stats rs)) / of_nat (total (profile_stats rs))\<bar>
           \<le> (100 * of_nat (negative (profile_stats rs)) / of_nat (total (profile_stats rs))) / 2 ^ 51)"
proof -
  let ?s = "profile_stats rs"
  have pp: "\<bar>num_val (positive_percent ?s) - 100 * of_nat (positive ?s) / of_nat (total ?s)\<bar>
           \<le> (100 * of_nat (positive ?s) / of_nat (total ?s)) / 2 ^ 51" if ne: "rs \<noteq> []"
  proof -
    have len: "0 < length rs" using ne by simp
    show ?thesis
      unfolding profile_stats_percents(1) [OF ne] profile_stats_counts(1)
      by (rule percent_error [OF len])
  qed
  have np: "\<bar>num_val (negative_percent ?s) - 100 * of_nat (negative ?s) / of_nat (total ?s)\<bar>
           \<le> (100 * of_nat (negative ?s) / of_nat (total ?s)) / 2 ^ 51" if ne: "rs \<noteq> []"
  proof -
    have len: "0 < length rs" using ne by simp
    show ?thesis
      unfolding profile_stats_percents(2) [OF ne] profile_stats_counts(1)
      by (rule percent_error [OF len])
  qed
  have "total ?s = length rs"
    "positive ?s = length (filter (\<lambda>r. sentiment r = ''Positive'') rs)"
    "positive ?s \<le> total ?s"
    "negative ?s = total ?s - positive ?s"
    by (simp_all add: profile_stats_counts)
  moreover have "rs = [] \<longrightarrow> ?s =
         \<lparr>total = 0, positive = 0, negative = 0,
          positive_percent = PyInt 0, negative_percent = PyInt 0\<rparr>"
    by (simp add: profile_stats_empty)
  ultimately show ?thesis using pp np by blast
qed

theorem profile_stats_aggregation_witness:
  "sample_reviews \<noteq> []
   \<and> total (profile_stats sample_reviews) = 3
   \<and> positive (profile_stats sample_reviews) = 2
   \<and> negative (profile_stats sample_reviews) = 1
   \<and> \<bar>num_val (positive_percent (profile_stats sample_reviews)) - 100 * 2 / 3\<bar>
        \<le> (100 * 2 / 3) / 2 ^ 51
   \<and> \<bar>num_val (negative_percent (profile_stats sample_reviews)) - 100 * 1 / 3\<bar>
        \<le> (100 * 1 / 3) / 2 ^ 51
   \<and> profile_stats [] = \<lparr>total = 0, positive = 0, negative = 0,
          positive_percent = PyInt 0, negative_percent = PyInt 0\<rparr>"
proof -
  have ne: "sample_reviews \<noteq> []" by (simp add: sample_reviews_def)
  have c: "total (profile_stats sample_reviews) = 3"
    "positive (profile_stats sample_reviews) = 2"
    "negative (profile_stats sample_reviews) = 1"
    by (simp_all add: profile_stats_sample)
  from profile_stats_aggregation [of sample_reviews] profile_stats_aggregation [of "[]"] ne
  show ?thesis unfolding c by simp
qed

text \<open>
  C10, as the specification states it, fails: for two positive reviews and one negative the
  two percentages are 66.66666666666666 and 33.33333333333333, whose sum is not 100.
\<close>

theorem percent_sum_counterexample:
  "0 < total (profile_stats sample_reviews)
   \<and> num_val (positive_percent (profile_stats sample_reviews))
       + num_val (negative_percent (profile_stats sample_reviews)) \<noteq> 100"
  by (simp add: profile_stats_sample fval_def pow2_def)

text \<open>
  C10, amended: for every sequence of reviews \<open>positive + negative = total\<close>; \<open>negative\<close>
  is the number of reviews whose sentiment is not the string \<open>Positive\<close>, whatever else it
  is; the two percentages sum to exactly 0 for the empty sequence and to within
  \<open>100 / 2 ^ 51\<close> of 100 otherwise.
\<close>

theorem percent_sum_invariant:
  "positive (profile_stats rs) + negative (profile_stats rs) = total (profile_stats rs)
   \<and> negative (profile_stats rs) = length (filter (\<lambda>r. sentiment r \<noteq> ''Positive'') rs)
   \<and> (rs = [] \<longrightarrow>
         num_val (positive_percent (profile_stats rs))
         + num_val (negative_percent (profile_stats rs)) = 0)
   \<and> (rs \<noteq> [] \<longrightarrow>
         \<bar>num_val (positive_percent (profile_stats rs))
          + num_val (negative_percent (profile_stats rs)) - 100\<bar> \<le> 100 / 2 ^ 51)"
proof -
  let ?P = "\<lambda>r. sentiment r = ''Positive''"
  define p n where "p = length (filter ?P rs)" and "n = length (filter (\<lambda>r. \<not> ?P r) rs)"
  have sum: "p + n = length rs"
    unfolding p_def n_def by (rule sum_length_filter_compl)
  then have neg: "length rs - p = n" by simp
  have c: "positive (profile_stats rs) = p" "negative (profile_stats rs) = n"
    "total (profile_stats rs) = length rs"
    using neg by (simp_all add: profile_stats_counts p_def)
  have bound: "\<bar>num_val (positive_percent (profile_stats rs))
          + num_val (negative_percent (profile_stats rs)) - 100\<bar> \<le> 100 / 2 ^ 51"
    if ne: "rs \<noteq> []"
  proof -
    define t :: rat where "t = of_nat (length rs)"
    have t: "0 < t" using ne by (simp add: t_def)
    have s: "of_nat p + of_nat n = t"
      unfolding t_def using sum by (simp only: of_nat_add [symmetric])
    define a b where "a = num_val (positive_percent (profile_stats rs))"
      and "b = num_val (negative_percent (profile_stats rs))"
    have len: "0 < length rs" using ne by simp
    have ea: "\<bar>a - 100 * of_nat p / t\<bar> \<le> (100 * of_nat p / t) / 2 ^ 51"
      using percent_error [OF len, of p] ne
      by (simp add: a_def t_def profile_stats_percents c)
    have eb: "\<bar>b - 100 * of_nat n / t\<bar> \<le> (100 * of_nat n / t) / 2 ^ 51"
      using percent_error [OF len, of n] ne
      by (simp add: b_def t_def profile_stats_percents c)
    have "100 * of_nat p / t + 100 * of_nat n / t = 100 * (of_nat p + of_nat n) / t"
      by (simp add: distrib_left add_divide_distrib)
    also have "\<dots> = 100" using s t by simp
    finally have h: "100 * of_nat p / t + 100 * of_nat n / t = 100" .
    have "(100 * of_nat p / t) / 2 ^ 51 + (100 * of_nat n / t) / 2 ^ 51
        = (100 * of_nat p / t + 100 * of_nat n / t) / 2 ^ 51"
      by (simp add: add_divide_distrib)
    also have "\<dots> = 100 / 2 ^ 51" by (simp only: h)
    finally have "(100 * of_nat p / t) / 2 ^ 51 + (100 * of_nat n / t) / 2 ^ 51 = 100 / 2 ^ 51" .
    with ea eb h have "\<bar>a + b - 100\<bar> \<le> 100 / 2 ^ 51" by linarith
    then show ?thesis by (simp add: a_def b_def)
  qed
  have "rs = [] \<Longrightarrow> num_val (positive_percent (profile_stats rs))
         + num_val (negative_percent (profile_stats rs)) = 0"
    by (simp add: profile_stats_empty)
  with bound sum show ?thesis unfolding c n_def by blast
qed

theorem percent_sum_invariant_witness:
  "sample_reviews \<noteq> []
   \<and> positive (profile_stats sample_reviews) + negative (profile_stats sample_reviews) = 3
   \<and> \<bar>num_val (positive_percent (profile_stats sample_reviews))
        + num_val (negative_percent (profile_stats sample_reviews)) - 100\<bar> \<le> 100 / 2 ^ 51
   \<and> num_val (positive_percent (profile_stats []))
        + num_val (negative_percent (profile_stats [])) = 0"
proof -
  have ne: "sample_reviews \<noteq> []" by (simp add: sample_reviews_def)
  have c: "total (profile_stats sample_reviews) = 3" by (simp add: profile_stats_sample)
  from percent_sum_invariant [of sample_reviews] percent_sum_invariant [of "[]"] ne
  show ?thesis unfolding c by simp
qed



section \<open>Pagination\<close>

lemma ilog2_upper:
  assumes "0 < a" "0 < b" "(of_nat a :: rat) / of_nat b < pow2 m"
  shows "ilog2 a b < m"
proof -
  have "pow2 (ilog2 a b) \<le> (of_nat a :: rat) / of_nat b"
    using ilog2_lower [OF assms(1,2)] assms(2) by (simp add: field_simps)
  then show ?thesis using assms(3) by (rule pow2_less_imp)
qed

lemma fl_exact:
  assumes "0 < q" "0 < b" "ilog2 (q * b) b \<le> 52"
  shows "fval (fl (q * b) b) = of_nat q"
proof -
  define k where "k = nat (52 - ilog2 (q * b) b)"
  have k: "52 - ilog2 (q * b) b = int k" using assms(3) by (simp add: k_def)
  have e: "q * b * 2 ^ k = (q * 2 ^ k) * b" by simp
  have "rne (q * b * 2 ^ k) b = q * 2 ^ k" unfolding e by (rule rne_exact [OF assms(2)])
  then have "fl (q * b) b = PyFloat (int (q * 2 ^ k)) (- int k)"
    using assms(1,2) by (simp add: fl_def Let_def k)
  then have "fval (fl (q * b) b) = of_nat (q * 2 ^ k) * pow2 (- int k)"
    by (simp add: fval_def)
  also have "pow2 (- int k) = 1 / 2 ^ k" by (simp add: pow2_neg) (simp add: pow2_def)
  finally show ?thesis by simp
qed

lemma fval_truediv_nat:
  assumes "0 < n"
  shows "fval (truediv n 10) = fval (fl (nat n) 10)"
  using assms by (simp add: truediv_pos fval_fround)

lemma pages_exact:
  assumes "0 < a" "a \<le> 10 * 2 ^ 50" "a mod 10 = 0"
  shows "\<lceil>fval (fl a 10)\<rceil> = \<lceil>of_nat a / (10::rat)\<rceil>"
proof -
  define q where "q = a div 10"
  have a: "a = q * 10" using assms(3) div_mult_mod_eq [of a 10] by (simp add: q_def)
  have q: "0 < q" "q \<le> 2 ^ 50" using assms(1,2) a by simp_all
  have "(of_nat q :: rat) \<le> of_nat (2 ^ 50)" using q(2) by (simp only: of_nat_le_iff)
  then have "(of_nat (q * 10) :: rat) / of_nat 10 < pow2 51" by (simp add: pow2_def)
  then have "ilog2 (q * 10) 10 < 51" using q(1) by (intro ilog2_upper) simp_all
  then have "fval (fl (q * 10) 10) = of_nat q" using q(1) by (intro fl_exact) simp_all
  then show ?thesis by (simp add: a)
qed

lemma pages_inexact:
  assumes "a \<le> 10 * 2 ^ 50" "a mod 10 \<noteq> 0"
  shows "\<lceil>fval (fl a 10)\<rceil> = \<lceil>of_nat a / (10::rat)\<rceil>"
proof -
  define k j where "k = a div 10" and "j = a mod 10"
  define x :: rat where "x = of_nat a / 10"
  define v where "v = fval (fl a 10)"
  have a: "a = 10 * k + j" and j: "1 \<le> j" "j \<le> 9"
    using assms(2) by (simp_all add: k_def j_def)
  have pos: "0 < a" using assms(2) by (cases "a = 0") simp_all
  have "a \<noteq> 10 * 2 ^ 50" using assms(2) by auto
  then have "a < 10 * 2 ^ 50" using assms(1) by simp
  then have "(of_nat a :: rat) < of_nat (10 * 2 ^ 50)" by (simp only: of_nat_less_iff)
  then have "(of_nat a :: rat) / of_nat 10 < pow2 50" by (simp add: pow2_def)
  then have "ilog2 a 10 < 50" using pos by (intro ilog2_upper) simp_all
  then have "pow2 (ilog2 a 10 - 53) \<le> pow2 (- 4)" by (intro pow2_mono) simp
  moreover have "\<bar>v - x\<bar> \<le> pow2 (ilog2 a 10 - 53)"
    using fl_error [of a 10] pos by (simp add: v_def x_def)
  ultimately have err: "\<bar>v - x\<bar> \<le> 1 / 16" by (simp add: pow2_def)
  have xk: "x = of_nat k + of_nat j / 10" by (simp add: x_def a)
  have "(of_nat 1 :: rat) \<le> of_nat j" "(of_nat j :: rat) \<le> of_nat 9"
    using j by (simp_all only: of_nat_le_iff)
  then have jb: "(1 :: rat) \<le> of_nat j" "(of_nat j :: rat) \<le> 9" by simp_all
  have xb: "of_nat k < x" "x \<le> of_nat k + 9 / 10" "of_nat k + 1 / 10 \<le> x"
    using jb by (simp_all add: xk)
  have vb: "of_nat k < v" "v \<le> of_nat k + 1" using err xb by linarith+
  have "\<lceil>v\<rceil> = int k + 1" using vb by (intro ceiling_unique) simp_all
  moreover have "\<lceil>x\<rceil> = int k + 1" using xb by (intro ceiling_unique) simp_all
  ultimately show ?thesis by (simp add: v_def x_def)
qed

text \<open>
  C5, as the specification states it, fails for large counts: the division is a float
  division, and \<open>(10 * 2 ^ 50 + 1) / 10\<close> rounds to the double \<open>2 ^ 50\<close>, so the page count is
  \<open>2 ^ 50\<close> where the ceiling of the exact quotient is \<open>2 ^ 50 + 1\<close>.
\<close>

theorem total_pages_counterexample:
  "total_pages (10 * 2 ^ 50 + 1) = 2 ^ 50
   \<and> \<lceil>of_int (10 * 2 ^ 50 + 1) / (10::rat)\<rceil> = 2 ^ 50 + 1"
proof -
  have "total_pages (10 * 2 ^ 50 + 1) = 2 ^ 50"
    by (simp add: total_pages_def float_eval)
  moreover have "\<lceil>of_int (10 * 2 ^ 50 + 1) / (10::rat)\<rceil> = 2 ^ 50 + 1"
    by (intro ceiling_unique) simp_all
  ultimately show ?thesis by simp
qed

text \<open>
  C5, amended: for every integer \<open>total_results\<close> from 0 to \<open>10 * 2 ^ 50\<close> the computed page
  count is the ceiling of \<open>total_results / 10\<close>; in particular it is 0 for 0, 1 for 10 and 3
  for 25.
\<close>

theorem total_pages_ceiling:
  assumes "0 \<le> n" and "n \<le> 10 * 2 ^ 50"
  shows "total_pages n = \<lceil>of_int n / (10::rat)\<rceil>"
proof (cases "n = 0")
  case True
  then show ?thesis by (simp add: total_pages_def float_eval)
next
  case False
  define a where "a = nat n"
  have n: "0 < n" "n = int a" using assms(1) False by (simp_all add: a_def)
  have a: "0 < a" "a \<le> 10 * 2 ^ 50" using assms False by (simp_all add: a_def)
  have "total_pages n = \<lceil>fval (fl a 10)\<rceil>"
    using fval_truediv_nat [OF n(1)] by (simp add: total_pages_def fceil_eq a_def)
  also have "\<dots> = \<lceil>of_nat a / (10::rat)\<rceil>"
    using pages_exact [OF a] pages_inexact [OF a(2)] by (cases "a mod 10 = 0") simp_all
  finally show ?thesis by (simp add: n(2))
qed

theorem total_pages_ceiling_witness:
  "(0::int) \<le> 25 \<and> (25::int) \<le> 10 * 2 ^ 50
   \<and> total_pages 0 = 0 \<and> total_pages 10 = 1 \<and> total_pages 25 = 3"
proof -
  have "\<lceil>0 / (10::rat)\<rceil> = 0" "\<lceil>10 / (10::rat)\<rceil> = 1" by simp_all
  moreover have "\<lceil>25 / (10::rat)\<rceil> = 3" by (intro ceiling_unique) simp_all
  ultimately show ?thesis
    using total_pages_ceiling [of 0] total_pages_ceiling [of 10] total_pages_ceiling [of 25]
    by simp
qed



section \<open>Registration\<close>

text \<open>
  C8: whenever a registration request creates a user, exactly one row is appended to the
  user table, its email is the submitted one, and its \<open>is_admin\<close> flag is true if and only
  if the submitted email is the string \<open>admin@admin.com\<close>.
\<close>

theorem register_admin_grant:
  assumes "users (snd (register env st session method form)) \<noteq> users st"
  shows "\<exists>u. users (snd (register env st session method form)) = users st @ [u]
            \<and> form_email form = Some (email u)
            \<and> (is_admin u \<longleftrightarrow> form_email form = Some ''admin@admin.com'')"
  using assms
  by (auto simp: register_def Let_def split: option.splits if_splits prod.splits)

theorem register_admin_grant_witness:
  "users (snd (register sample_env empty_state None POST
       \<lparr>form_username = Some ''root'', form_email = Some ''admin@admin.com'',
        form_password = Some ''pw''\<rparr>)) \<noteq> users empty_state
   \<and> (\<exists>u. users (snd (register sample_env empty_state None POST
       \<lparr>form_username = Some ''root'', form_email = Some ''admin@admin.com'',
        form_password = Some ''pw''\<rparr>)) = users empty_state @ [u] \<and> is_admin u)
   \<and> users (snd (register sample_env sample_state None POST
       \<lparr>form_username = Some ''bob'', form_email = Some ''Admin@admin.com'',
        form_password = Some ''pw''\<rparr>)) \<noteq> users sample_state
   \<and> (\<exists>u. users (snd (register sample_env sample_state None POST
       \<lparr>form_username = Some ''bob'', form_email = Some ''Admin@admin.com'',
        form_password = Some ''pw''\<rparr>)) = users sample_state @ [u] \<and> \<not> is_admin u)"
proof -
  let ?f = "\<lparr>form_username = Some ''root'', form_email = Some ''admin@admin.com'',
        form_password = Some ''pw''\<rparr>"
  let ?g = "\<lparr>form_username = Some ''bob'', form_email = Some ''Admin@admin.com'',
        form_password = Some ''pw''\<rparr>"
  have a: "users (snd (register sample_env empty_state None POST ?f)) \<noteq> users empty_state"
    by (simp add: register_def current_user_def empty_state_def)
  have b: "users (snd (register sample_env sample_state None POST ?g)) \<noteq> users sample_state"
    by (simp add: register_def current_user_def sample_state_def empty_state_def alice_def
        admin_user_def)
  from register_admin_grant [OF a] register_admin_grant [OF b] a b
  show ?thesis by auto
qed

section \<open>Start-up\<close>

text \<open>
  C9: if loading \<open>sentiment_model.joblib\<close> fails, the process ends in that error and serves
  no request; whatever the process serves, it serves with the model that was loaded.
\<close>

theorem startup_fail_fast:
  "(joblib_load env ''sentiment_model.joblib'' = Inl e \<longrightarrow> run_app env st reqs = Inl e)
   \<and> (run_app env st reqs = Inr out \<longrightarrow>
        (\<exists>m. joblib_load env ''sentiment_model.joblib'' = Inr m \<and> out = serve env m st reqs))"
  by (auto simp: run_app_def split: sum.splits)

theorem startup_fail_fast_witness:
  "joblib_load (sample_env\<lparr>joblib_load := \<lambda>_. Inl LoadFault\<rparr>) ''sentiment_model.joblib''
     = Inl LoadFault
   \<and> run_app (sample_env\<lparr>joblib_load := \<lambda>_. Inl LoadFault\<rparr>) sample_state
        [(0, Predict (Some 2) sample_form)] = Inl LoadFault
   \<and> (\<exists>out. run_app sample_env sample_state [(0, Predict (Some 2) sample_form)] = Inr out
        \<and> out = serve sample_env sample_model sample_state [(0, Predict (Some 2) sample_form)])"
proof -
  have a: "joblib_load (sample_env\<lparr>joblib_load := \<lambda>_. Inl LoadFault\<rparr>) ''sentiment_model.joblib''
     = Inl LoadFault" by simp
  have b: "joblib_load sample_env ''sentiment_model.joblib'' = Inr sample_model"
    by (simp add: sample_env_def)
  have c: "run_app sample_env sample_state [(0, Predict (Some 2) sample_form)]
     = Inr (serve sample_env sample_model sample_state [(0, Predict (Some 2) sample_form)])"
    by (simp add: run_app_def b)
  from startup_fail_fast [of "sample_env\<lparr>joblib_load := \<lambda>_. Inl LoadFault\<rparr>" LoadFault
      sample_state "[(0, Predict (Some 2) sample_form)]"]
    startup_fail_fast [of sample_env LoadFault sample_state "[(0, Predict (Some 2) sample_form)]"
      "serve sample_env sample_model sample_state [(0, Predict (Some 2) sample_form)]"]
    a b c
  show ?thesis by simp
qed

section \<open>Classification\<close>

lemma np_max_pair: "np_max ([p0, p1] # []) = Inr (max p0 p1)"
  by (simp add: np_max_def max.commute)

text \<open>
  C6: for a logged-in user and every text, when the pipeline returns the two class
  probabilities \<open>p0\<close>, \<open>p1\<close> and the predicted class \<open>c\<close>, the review that \<open>predict\<close> stores has
  confidence \<open>max p0 p1\<close> (in \<open>[0, 1]\<close> when both probabilities are), its label is \<open>Positive\<close>
  if and only if \<open>c = 1\<close>, and the label is \<open>Positive\<close> or \<open>Negative\<close>.
\<close>

theorem predict_classifier_output:
  assumes "current_user st session = Some u"
    and "review_text form = Some t"
    and "predict_proba m [t] = [p0, p1] # []"
    and "model_predict m [t] = c # cs"
  shows "\<exists>r. reviews (snd (predict env m st session form)) = reviews st @ [r]
            \<and> content r = t
            \<and> confidence r = max p0 p1
            \<and> (sentiment r = ''Positive'' \<longleftrightarrow> c = 1)
            \<and> (sentiment r = ''Positive'' \<or> sentiment r = ''Negative'')
            \<and> (0 \<le> p0 \<and> p0 \<le> 1 \<and> 0 \<le> p1 \<and> p1 \<le> 1
                 \<longrightarrow> 0 \<le> confidence r \<and> confidence r \<le> 1)"
  using assms
  by (auto simp: predict_def np_max_pair Let_def split: option.splits sum.splits)


theorem predict_classifier_output_witness:
  "current_user sample_state (Some 2) = Some alice
   \<and> review_text sample_form = Some ''this movie was wonderful''
   \<and> predict_proba sample_model [''this movie was wonderful''] = [1 / 10, 9 / 10] # []
   \<and> model_predict sample_model [''this movie was wonderful''] = [1]
   \<and> (\<exists>r. reviews (snd (predict sample_env sample_model sample_state (Some 2) sample_form))
              = reviews sample_state @ [r]
          \<and> confidence r = 9 / 10 \<and> sentiment r = ''Positive''
          \<and> 0 \<le> confidence r \<and> confidence r \<le> 1)"
proof -
  have a: "current_user sample_state (Some 2) = Some alice"
    by (simp add: current_user_def load_user_def sample_state_def empty_state_def alice_def)
  have b: "review_text sample_form = Some ''this movie was wonderful''"
    by (simp add: sample_form_def)
  have c: "predict_proba sample_model [''this movie was wonderful''] = [1 / 10, 9 / 10] # []"
    by (simp add: sample_model_def)
  have d: "model_predict sample_model [''this movie was wonderful''] = [1]"
    by (simp add: sample_model_def)
  from predict_classifier_output [OF a b c d, of sample_env] a b c d
  show ?thesis by auto
qed


section \<open>The detail cache\<close>

lemma current_user_SomeD:
  "current_user st session = Some u \<Longrightarrow> u \<in> set (users st) \<and> session = Some (uid u)"
  by (auto simp: current_user_def load_user_def find_Some_iff split: option.splits)

lemma current_user_cong:
  "users st' = users st \<Longrightarrow> current_user st' session = current_user st session"
  by (simp add: current_user_def load_user_def split: option.splits)

lemma cache_get_delete [simp]: "cache_get (cache_delete c k) now k = None"
  by (simp add: cache_get_def cache_delete_def AList.delete_conv')

lemma cache_get_delete_other:
  "k' \<noteq> k \<Longrightarrow> cache_get (cache_delete c k) now k' = cache_get c now k'"
  by (simp add: cache_get_def cache_delete_def)

lemma map_of_cache_set: "map_of (cache_set c now k rv timeout) k = Some (now + timeout, rv)"
  by (simp add: cache_set_def AList.update_conv')

lemma cache_get_set:
  "now' < now + timeout \<Longrightarrow> cache_get (cache_set c now k rv timeout) now' k = Some rv"
  by (simp add: cache_get_def map_of_cache_set)

lemma cache_delete_absent: "map_of c k = None \<Longrightarrow> cache_delete c k = c"
  by (simp add: cache_delete_def map_of_eq_None_iff)

lemma cache_delete_twice: "cache_delete (cache_delete c k) k = cache_delete c k"
  by (simp add: cache_delete_def AList.delete_idem)

lemma prune_within_threshold: "length c \<le> threshold \<Longrightarrow> prune c now = c"
  by (simp add: prune_def over_threshold_def)

lemma map_of_cache_set_other:
  "k' \<noteq> k \<Longrightarrow> length c \<le> threshold
     \<Longrightarrow> map_of (cache_set c now k rv timeout) k' = map_of c k'"
  by (simp add: cache_set_def AList.update_conv' prune_within_threshold)

lemma view_key_inject [simp]: "view_key a = view_key b \<longleftrightarrow> a = b"
  by (simp add: view_key_def)

lemma reviews_with_users_cong:
  "users st' = users st \<Longrightarrow> reviews st' = reviews st
     \<Longrightarrow> reviews_with_users st' imdb = reviews_with_users st imdb"
  by (simp add: reviews_with_users_def)

lemma in_reviews_with_users:
  "(r, u) \<in> set (reviews_with_users st imdb)
     \<longleftrightarrow> r \<in> set (reviews st) \<and> imdb_id r = Some imdb \<and> u \<in> set (users st) \<and> uid u = user_id r"
  by (auto simp: reviews_with_users_def order_desc_def)

lemma movie_details_body_fst:
  "fst (movie_details_body env st imdb) =
     RenderMovieDetails (movie_data_of (omdb_lookup env imdb))
       (if has_data (movie_data_of (omdb_lookup env imdb)) then reviews_with_users st imdb else [])"
  by (simp add: movie_details_body_def Let_def reviews_with_users_def)

lemma movie_details_body_snd:
  "users (snd (movie_details_body env st imdb)) = users st"
  "reviews (snd (movie_details_body env st imdb)) = reviews st"
  "cache (snd (movie_details_body env st imdb)) = cache st"
  "lookups (snd (movie_details_body env st imdb)) = lookups st @ [imdb]"
  by (simp_all add: movie_details_body_def Let_def)

lemma movie_details_hit:
  assumes "current_user st session = Some u"
    and "cache_get (cache st) now (view_key imdb) = Some rv"
  shows "movie_details env now st session imdb = (rv, st)"
  using assms by (simp add: movie_details_def)

lemma movie_details_miss:
  assumes "current_user st session = Some u"
    and "cache_get (cache st) now (view_key imdb) = None"
  shows "fst (movie_details env now st session imdb) = fst (movie_details_body env st imdb)"
    and "snd (movie_details env now st session imdb)
         = (snd (movie_details_body env st imdb))
             \<lparr>cache := cache_set (cache st) now (view_key imdb)
                         (fst (movie_details_body env st imdb)) 86400\<rparr>"
  using assms by (simp_all add: movie_details_def split_beta movie_details_body_snd)

lemma movie_details_keeps_tables:
  assumes "current_user st session = Some u"
  shows "users (snd (movie_details env now st session imdb)) = users st"
    and "reviews (snd (movie_details env now st session imdb)) = reviews st"
proof -
  have "users (snd (movie_details env now st session imdb)) = users st
      \<and> reviews (snd (movie_details env now st session imdb)) = reviews st"
  proof (cases "cache_get (cache st) now (view_key imdb)")
    case None
    then show ?thesis by (simp add: movie_details_miss(2) [OF assms] movie_details_body_snd)
  next
    case (Some rv)
    then show ?thesis by (simp add: movie_details_hit [OF assms])
  qed
  then show "users (snd (movie_details env now st session imdb)) = users st"
    and "reviews (snd (movie_details env now st session imdb)) = reviews st"
    by simp_all
qed


lemma movie_details_after_miss:
  assumes "current_user st session = Some u"
    and "cache_get (cache st) now (view_key imdb) = None"
  shows "fst (movie_details env now st session imdb) =
     RenderMovieDetails (movie_data_of (omdb_lookup env imdb))
       (if has_data (movie_data_of (omdb_lookup env imdb)) then reviews_with_users st imdb else [])"
  using movie_details_miss(1) [OF assms] by (simp add: movie_details_body_fst)

lemma movie_data_of_None_iff:
  "movie_data_of reply = None \<longleftrightarrow>
     reply = RequestException \<or> (\<exists>d. reply = Json d \<and> map_of d ''Response'' = Some ''False'')"
  by (cases reply) (simp_all add: movie_data_of_def)

lemma sample_user: "current_user sample_state (Some 2) = Some alice"
  by (simp add: current_user_def load_user_def sample_state_def empty_state_def alice_def)

lemma sample_cache_empty: "cache_get (cache sample_state) now key = None"
  by (simp add: cache_get_def sample_state_def empty_state_def)

lemma sample_unknown: "movie_data_of (omdb_lookup sample_env ''tt0000000'') = None"
  by (simp add: movie_data_of_def sample_env_def)

lemma sample_known: "movie_data_of (omdb_lookup sample_env ''tt0111161'') = Some sample_data"
  by (simp add: movie_data_of_def sample_env_def sample_data_def)

lemma sample_admin: "current_user sample_state (Some 3) = Some admin_user"
  by (simp add: current_user_def load_user_def sample_state_def empty_state_def alice_def
      admin_user_def)

lemma cache_set_empty: "cache_set [] now key rv timeout = [(key, (now + timeout, rv))]"
  by (simp add: cache_set_def prune_def over_threshold_def)

lemma populated_state_facts:
  "users populated_state = [alice, admin_user]"
  "reviews populated_state = []"
  "cache populated_state
     = [(view_key ''tt0111161'', (86400, RenderMovieDetails (Some sample_data) []))]"
  "movie_details sample_env 0 sample_state (Some 2) ''tt0111161''
     = (RenderMovieDetails (Some sample_data) [], populated_state)"
proof -
  let ?r = "movie_details sample_env 0 sample_state (Some 2) ''tt0111161''"
  note miss = movie_details_miss [OF sample_user sample_cache_empty, of sample_env 0 "''tt0111161''"]
  have "reviews_with_users sample_state ''tt0111161'' = []"
    by (simp add: reviews_with_users_def order_desc_def sample_state_def empty_state_def)
  then have f: "fst (movie_details_body sample_env sample_state ''tt0111161'')
      = RenderMovieDetails (Some sample_data) []"
    by (simp add: movie_details_body_fst sample_known)
  have c: "cache sample_state = []" by (simp add: sample_state_def empty_state_def)
  show "users populated_state = [alice, admin_user]"
    unfolding populated_state_def miss(2)
    by (simp add: movie_details_body_snd sample_state_def empty_state_def)
  show "reviews populated_state = []"
    unfolding populated_state_def miss(2)
    by (simp add: movie_details_body_snd sample_state_def empty_state_def)
  show "cache populated_state
     = [(view_key ''tt0111161'', (86400, RenderMovieDetails (Some sample_data) []))]"
    unfolding populated_state_def miss(2) by (simp add: f c cache_set_empty)
  have "fst ?r = RenderMovieDetails (Some sample_data) []" by (simp add: miss(1) f)
  then show "?r = (RenderMovieDetails (Some sample_data) [], populated_state)"
    unfolding populated_state_def by (simp add: prod_eq_iff)
qed

lemma populated_users:
  "current_user populated_state (Some 2) = Some alice"
  "current_user populated_state (Some 3) = Some admin_user"
  using current_user_cong [of populated_state sample_state] sample_user sample_admin
  by (simp_all add: populated_state_facts sample_state_def empty_state_def)

text \<open>
  C2, as the specification states it, fails: \<open>cache.cached\<close> stores whatever the view
  returns. After a lookup that reports \<open>Response: False\<close> the cache holds the empty page
  for that identifier, and the next request is answered from it without a lookup.
\<close>

theorem negative_result_counterexample:
  "movie_data_of (omdb_lookup sample_env ''tt0000000'') = None
   \<and> map_of (cache (snd (movie_details sample_env 0 sample_state (Some 2) ''tt0000000'')))
        (view_key ''tt0000000'') = Some (86400, RenderMovieDetails None [])
   \<and> lookups (snd (movie_details sample_env 0 sample_state (Some 2) ''tt0000000''))
        = [''tt0000000'']
   \<and> lookups (snd (movie_details sample_env 60
        (snd (movie_details sample_env 0 sample_state (Some 2) ''tt0000000'')) (Some 2)
        ''tt0000000'')) = [''tt0000000'']"
proof -
  let ?r = "movie_details sample_env 0 sample_state (Some 2) ''tt0000000''"
  let ?b = "movie_details_body sample_env sample_state ''tt0000000''"
  note miss = movie_details_miss [OF sample_user sample_cache_empty, of sample_env 0 "''tt0000000''"]
  have f: "fst ?b = RenderMovieDetails None []"
    by (simp add: movie_details_body_fst sample_unknown has_data_def)
  have c: "map_of (cache (snd ?r)) (view_key ''tt0000000'')
      = Some (86400, RenderMovieDetails None [])"
    by (simp add: miss(2) f map_of_cache_set)
  have "lookups (snd ?r) = lookups sample_state @ [''tt0000000'']"
    by (simp add: miss(2) movie_details_body_snd)
  moreover have "lookups sample_state = []" by (simp add: sample_state_def empty_state_def)
  ultimately have l: "lookups (snd ?r) = [''tt0000000'']" by simp
  have "users (snd ?r) = users sample_state"
    by (simp add: miss(2) movie_details_body_snd)
  from current_user_cong [OF this] sample_user
  have u: "current_user (snd ?r) (Some 2) = Some alice" by simp
  have "cache_get (cache (snd ?r)) 60 (view_key ''tt0000000'') = Some (RenderMovieDetails None [])"
    by (simp add: cache_get_def c)
  from movie_details_hit [OF u this]
  have "movie_details sample_env 60 (snd ?r) (Some 2) ''tt0000000''
      = (RenderMovieDetails None [], snd ?r)" .
  with c l sample_unknown show ?thesis by simp
qed

text \<open>
  C2, amended: when the catalog lookup for an identifier fails or reports
  \<open>Response: False\<close>, a \<open>movie_details\<close> request that misses the cache makes one lookup,
  returns the page without data and without reviews, and stores that page under the
  identifier's key for 86400 seconds; until then every further request for the identifier
  gets the stored page, whatever the catalog would now answer, and changes nothing.
\<close>

theorem negative_result_is_cached:
  assumes "current_user st session = Some u"
    and "cache_get (cache st) now (view_key imdb) = None"
    and "omdb_lookup env imdb = RequestException
         \<or> (\<exists>d. omdb_lookup env imdb = Json d \<and> map_of d ''Response'' = Some ''False'')"
  shows "fst (movie_details env now st session imdb) = RenderMovieDetails None []
     \<and> lookups (snd (movie_details env now st session imdb)) = lookups st @ [imdb]
     \<and> map_of (cache (snd (movie_details env now st session imdb))) (view_key imdb)
         = Some (now + 86400, RenderMovieDetails None [])
     \<and> (\<forall>now' env'. now' < now + 86400 \<longrightarrow>
           movie_details env' now' (snd (movie_details env now st session imdb)) session imdb
             = (RenderMovieDetails None [], snd (movie_details env now st session imdb)))"
proof -
  let ?r = "movie_details env now st session imdb"
  let ?b = "movie_details_body env st imdb"
  note miss = movie_details_miss [OF assms(1,2), of env]
  have none: "movie_data_of (omdb_lookup env imdb) = None"
    using assms(3) by (simp add: movie_data_of_None_iff)
  have fb: "fst ?b = RenderMovieDetails None []"
    by (simp add: movie_details_body_fst none has_data_def)
  have f: "fst ?r = RenderMovieDetails None []" by (simp add: miss(1) fb)
  have l: "lookups (snd ?r) = lookups st @ [imdb]"
    by (simp add: miss(2) movie_details_body_snd)
  have c: "map_of (cache (snd ?r)) (view_key imdb)
      = Some (now + 86400, RenderMovieDetails None [])"
    by (simp add: miss(2) fb map_of_cache_set)
  have "users (snd ?r) = users st" by (simp add: miss(2) movie_details_body_snd)
  from current_user_cong [OF this] assms(1)
  have u: "current_user (snd ?r) session = Some u" by simp
  have again: "movie_details env' now' (snd ?r) session imdb = (RenderMovieDetails None [], snd ?r)"
    if "now' < now + 86400" for now' env'
  proof -
    have "cache_get (cache (snd ?r)) now' (view_key imdb) = Some (RenderMovieDetails None [])"
      using that by (simp add: cache_get_def c)
    from movie_details_hit [OF u this] show ?thesis .
  qed
  from f l c again show ?thesis by blast
qed

theorem negative_result_is_cached_witness:
  "current_user sample_state (Some 2) = Some alice
   \<and> cache_get (cache sample_state) 0 (view_key ''tt0000000'') = None
   \<and> omdb_lookup sample_env ''tt0000000''
       = Json [(''Response'', ''False''), (''Error'', ''Incorrect IMDb ID.'')]
   \<and> fst (movie_details sample_env 0 sample_state (Some 2) ''tt0000000'')
       = RenderMovieDetails None []
   \<and> fst (movie_details sample_env 3600
        (snd (movie_details sample_env 0 sample_state (Some 2) ''tt0000000'')) (Some 2)
        ''tt0000000'') = RenderMovieDetails None []"
proof -
  have r: "omdb_lookup sample_env ''tt0000000''
       = Json [(''Response'', ''False''), (''Error'', ''Incorrect IMDb ID.'')]"
    by (simp add: sample_env_def)
  then have h: "omdb_lookup sample_env ''tt0000000'' = RequestException
         \<or> (\<exists>d. omdb_lookup sample_env ''tt0000000'' = Json d
                \<and> map_of d ''Response'' = Some ''False'')"
    by simp
  from negative_result_is_cached [OF sample_user sample_cache_empty h]
  have "fst (movie_details sample_env 0 sample_state (Some 2) ''tt0000000'')
       = RenderMovieDetails None []"
    and "\<And>now' env'. now' < 0 + 86400 \<Longrightarrow>
           movie_details env' now'
             (snd (movie_details sample_env 0 sample_state (Some 2) ''tt0000000'')) (Some 2)
             ''tt0000000''
             = (RenderMovieDetails None [],
                snd (movie_details sample_env 0 sample_state (Some 2) ''tt0000000''))"
    by blast+
  from this(1) this(2) [of 3600 sample_env] r sample_user sample_cache_empty
  show ?thesis by simp
qed


section \<open>Submission and invalidation\<close>


lemma predict_invalidation_succeeds:
  assumes "current_user st session = Some u"
    and "review_text form = Some t"
    and "np_max (predict_proba m [t]) = Inr conf"
    and "model_predict m [t] = c # cs"
    and "form_imdb_id form = Some imdb" and "imdb \<noteq> []"
    and "memoized_key env imdb = Inr k"
  shows "\<exists>resp. fst (predict env m st session form) = Inr resp"
    and "users (snd (predict env m st session form)) = users st"
    and "cache (snd (predict env m st session form)) = cache_delete (cache st) k"
    and "reviews (snd (predict env m st session form)) =
           reviews st
           @ [\<lparr>rid = next_id (map rid (reviews st)), content = t,
               sentiment = (if c = 1 then ''Positive'' else ''Negative''),
               confidence = conf, user_id = uid u, imdb_id = Some imdb\<rparr>]"
  using assms by (simp_all add: predict_def delete_memoized_def Let_def)

lemma sample_probabilities:
  "np_max (predict_proba sample_model [''this movie was wonderful'']) = Inr (9 / 10)"
  "model_predict sample_model [''this movie was wonderful''] = [1]"
  by (simp_all add: sample_model_def np_max_def)

lemma sample_form_fields:
  "review_text sample_form = Some ''this movie was wonderful''"
  "form_imdb_id sample_form = Some ''tt0111161''"
  by (simp_all add: sample_form_def)






section \<open>How the cache fills\<close>

lemma serve_append:
  "snd (serve env m st (xs @ ys)) = snd (serve env m (snd (serve env m st xs)) ys)"
  by (induction xs arbitrary: st) (auto simp: split_beta)

lemma update_absent: "k \<notin> fst ` set al \<Longrightarrow> AList.update k v al = al @ [(k, v)]"
  by (induction al) auto

lemma filler_distinct [simp]: "filler i = filler j \<longleftrightarrow> i = j"
  by (simp add: filler_def)

lemma filler_routed: "filler i \<noteq> [] \<and> CHR ''/'' \<notin> set (filler i) \<and> filler i \<noteq> ''tt0111161''"
  by (simp add: filler_def)

lemma read_filler:
  assumes "current_user st (Some 2) = Some alice"
    and "cache st = x # map (\<lambda>i. (view_key (filler i), (86401 + i, RenderMovieDetails None []))) [0..<n]"
    and "fst x = view_key ''tt0111161''"
    and "n < 500"
  shows "users (snd (dispatch sample_env m (Suc n) st (MovieDetails (Some 2) (filler n)))) = users st"
    and "reviews (snd (dispatch sample_env m (Suc n) st (MovieDetails (Some 2) (filler n)))) = reviews st"
    and "cache (snd (dispatch sample_env m (Suc n) st (MovieDetails (Some 2) (filler n))))
         = x # map (\<lambda>i. (view_key (filler i), (86401 + i, RenderMovieDetails None []))) [0..<Suc n]"
proof -
  let ?e = "\<lambda>i. (view_key (filler i), (86401 + i, RenderMovieDetails None []))"
  let ?k = "view_key (filler n)"
  let ?r = "movie_details sample_env (Suc n) st (Some 2) (filler n)"
  have d: "dispatch sample_env m (Suc n) st (MovieDetails (Some 2) (filler n)) = (Inr (fst ?r), snd ?r)"
    using filler_routed [of n] by (simp add: dispatch_def split_beta)
  have absent: "?k \<notin> fst ` set (cache st)"
    using filler_routed [of n] assms(3) by (auto simp: assms(2))
  then have "map_of (cache st) ?k = None" by (simp add: map_of_eq_None_iff)
  then have "cache_get (cache st) (Suc n) ?k = None" by (simp add: cache_get_def)
  note miss = movie_details_miss [OF assms(1) this, of sample_env]
  have "movie_data_of (omdb_lookup sample_env (filler n)) = None"
    using filler_routed [of n] by (simp add: movie_data_of_def sample_env_def)
  then have f: "fst (movie_details_body sample_env st (filler n)) = RenderMovieDetails None []"
    by (simp add: movie_details_body_fst has_data_def)
  have len: "length (cache st) \<le> threshold"
    using assms(4) by (simp add: assms(2) threshold_def)
  have "cache_set (cache st) (Suc n) ?k (RenderMovieDetails None []) 86400
      = cache st @ [?e n]"
    by (simp add: cache_set_def prune_within_threshold [OF len] update_absent [OF absent])
  then have c: "cache (snd ?r) = x # map ?e [0..<Suc n]"
    by (simp add: miss(2) f assms(2))
  show "users (snd (dispatch sample_env m (Suc n) st (MovieDetails (Some 2) (filler n)))) = users st"
    by (simp add: d movie_details_keeps_tables [OF assms(1)])
  show "reviews (snd (dispatch sample_env m (Suc n) st (MovieDetails (Some 2) (filler n)))) = reviews st"
    by (simp add: d movie_details_keeps_tables [OF assms(1)])
  show "cache (snd (dispatch sample_env m (Suc n) st (MovieDetails (Some 2) (filler n))))
         = x # map ?e [0..<Suc n]"
    using c by (simp add: d)
qed

lemma reads_fill_cache:
  assumes "n \<le> 500"
  shows "users (snd (serve sample_env m populated_state
            (map (\<lambda>i. (Suc i, MovieDetails (Some 2) (filler i))) [0..<n]))) = [alice, admin_user]
     \<and> reviews (snd (serve sample_env m populated_state
            (map (\<lambda>i. (Suc i, MovieDetails (Some 2) (filler i))) [0..<n]))) = []
     \<and> cache (snd (serve sample_env m populated_state
            (map (\<lambda>i. (Suc i, MovieDetails (Some 2) (filler i))) [0..<n])))
         = (view_key ''tt0111161'', (86400, RenderMovieDetails (Some sample_data) []))
           # map (\<lambda>i. (view_key (filler i), (86401 + i, RenderMovieDetails None []))) [0..<n]"
  using assms
proof (induction n)
  case 0
  show ?case by (simp add: populated_state_facts)
next
  case (Suc n)
  let ?q = "\<lambda>i. (Suc i, MovieDetails (Some 2) (filler i))"
  let ?st = "snd (serve sample_env m populated_state (map ?q [0..<n]))"
  from Suc have ih: "users ?st = [alice, admin_user]" "reviews ?st = []"
    "cache ?st = (view_key ''tt0111161'', (86400, RenderMovieDetails (Some sample_data) []))
           # map (\<lambda>i. (view_key (filler i), (86401 + i, RenderMovieDetails None []))) [0..<n]"
    and n: "n < 500"
    by simp_all
  have "users ?st = users sample_state"
    by (simp add: ih(1) sample_state_def empty_state_def)
  from current_user_cong [OF this] sample_user
  have u: "current_user ?st (Some 2) = Some alice" by simp
  note R = read_filler [OF u ih(3) _ n, of m]
  have s: "snd (serve sample_env m populated_state (map ?q [0..<Suc n]))
      = snd (dispatch sample_env m (Suc n) ?st (MovieDetails (Some 2) (filler n)))"
    by (simp add: serve_append split_beta)
  show ?case unfolding s using R by (simp add: ih)
qed

text \<open>
  The full cache is what the process holds after alice's 501 requests: the page of the
  film first, then the pages of the 500 other identifiers.
\<close>

lemma crowded_state_reached:
  "users (snd (serve sample_env m sample_state crowd_requests)) = users crowded_state"
  "reviews (snd (serve sample_env m sample_state crowd_requests)) = reviews crowded_state"
  "cache (snd (serve sample_env m sample_state crowd_requests)) = cache crowded_state"
proof -
  let ?q = "\<lambda>i. (Suc i, MovieDetails (Some 2) (filler i))"
  have "dispatch sample_env m 0 sample_state (MovieDetails (Some 2) ''tt0111161'')
      = (Inr (RenderMovieDetails (Some sample_data) []), populated_state)"
    by (simp add: dispatch_def populated_state_facts(4))
  then have s: "snd (serve sample_env m sample_state crowd_requests)
      = snd (serve sample_env m populated_state (map ?q [0..<500]))"
    by (simp add: crowd_requests_def split_beta)
  note F = reads_fill_cache [of 500 m, simplified]
  show "users (snd (serve sample_env m sample_state crowd_requests)) = users crowded_state"
    unfolding s using F by (simp add: crowded_state_def sample_state_def empty_state_def)
  show "reviews (snd (serve sample_env m sample_state crowd_requests)) = reviews crowded_state"
    unfolding s using F by (simp add: crowded_state_def sample_state_def empty_state_def)
  show "cache (snd (serve sample_env m sample_state crowd_requests)) = cache crowded_state"
    unfolding s using F by (simp add: crowded_state_def filler_cache_def)
qed


section \<open>Repeated invalidation and repeated reads\<close>

lemma first_call_entry:
  assumes "current_user st session = Some u"
  shows "\<exists>e. map_of (cache (snd (movie_details env now st session imdb))) (view_key imdb)
           = Some (e, fst (movie_details env now st session imdb))"
proof (cases "cache_get (cache st) now (view_key imdb)")
  case None
  show ?thesis
    by (simp add: movie_details_miss [OF assms None] map_of_cache_set)
next
  case (Some rv)
  then obtain e where "map_of (cache st) (view_key imdb) = Some (e, rv)"
    by (auto simp: cache_get_def split: option.splits if_splits)
  then show ?thesis by (simp add: movie_details_hit [OF assms Some])
qed

lemma read_other_keeps_entry:
  assumes "current_user st session = Some u"
    and "length (cache st) \<le> threshold"
    and "other \<noteq> imdb"
  shows "map_of (cache (snd (movie_details env now st session other))) (view_key imdb)
           = map_of (cache st) (view_key imdb)"
proof (cases "cache_get (cache st) now (view_key other)")
  case None
  have "view_key imdb \<noteq> view_key other" using assms(3) by simp
  then show ?thesis
    by (simp add: movie_details_miss(2) [OF assms(1) None] map_of_cache_set_other [OF _ assms(2)])
next
  case (Some rv)
  then show ?thesis by (simp add: movie_details_hit [OF assms(1) Some])
qed

lemma same_entry_same_page:
  assumes "current_user st session = Some u"
    and "current_user st' session' = Some u'"
    and "map_of (cache st') (view_key imdb)
           = map_of (cache (snd (movie_details env now st session imdb))) (view_key imdb)"
    and "cache_get (cache st') now' (view_key imdb) \<noteq> None"
  shows "movie_details env' now' st' session' imdb
           = (fst (movie_details env now st session imdb), st')"
proof -
  from first_call_entry [OF assms(1), of env now imdb] assms(3)
  obtain e where "map_of (cache st') (view_key imdb)
      = Some (e, fst (movie_details env now st session imdb))"
    by auto
  with assms(4) have "cache_get (cache st') now' (view_key imdb)
      = Some (fst (movie_details env now st session imdb))"
    by (auto simp: cache_get_def split: if_splits)
  from movie_details_hit [OF assms(2) this] show ?thesis .
qed

lemma remove_older_oldest:
  assumes "sorted (map (\<lambda>(key, expires, rv). expires) ((k, e, rv) # c))"
    and "length c = threshold"
    and "k \<notin> fst ` set c"
  shows "remove_older ((k, e, rv) # c) = c"
proof -
  have s: "sort_key (\<lambda>(key, expires, rv). expires) ((k, e, rv) # c) = (k, e, rv) # c"
    using assms(1) by (rule sort_key_id_if_sorted)
  have "filter (\<lambda>(key, entry). key \<noteq> k) c = c"
    using assms(3) by (force simp: filter_id_conv)
  then show ?thesis
    unfolding remove_older_def s by (simp add: assms(2))
qed

lemma filler_cache_facts:
  "length filler_cache = threshold"
  "view_key ''tt0111161'' \<notin> fst ` set filler_cache"
  "view_key ''tt0000000'' \<notin> fst ` set filler_cache"
  "sorted (map (\<lambda>(key, expires, rv). expires) filler_cache)"
  "\<forall>x \<in> set filler_cache. 86400 \<le> fst (snd x)"
proof -
  show "length filler_cache = threshold" by (simp add: filler_cache_def threshold_def)
  show "view_key ''tt0111161'' \<notin> fst ` set filler_cache"
    by (auto simp: filler_cache_def filler_def)
  show "view_key ''tt0000000'' \<notin> fst ` set filler_cache"
    by (auto simp: filler_cache_def filler_def)
  have "sorted (map (\<lambda>i. 86401 + i) [0..<500])"
    by (simp add: sorted_map sorted_wrt_iff_nth_less)
  then show "sorted (map (\<lambda>(key, expires, rv). expires) filler_cache)"
    by (simp add: filler_cache_def comp_def)
  show "\<forall>x \<in> set filler_cache. 86400 \<le> fst (snd x)"
    by (auto simp: filler_cache_def)
qed

lemma prune_crowded:
  assumes "now \<le> 86400"
  shows "prune ((view_key ''tt0111161'', (86400, rv)) # filler_cache) now = filler_cache"
proof -
  let ?c = "(view_key ''tt0111161'', (86400, rv)) # filler_cache"
  have over: "over_threshold ?c" by (simp add: over_threshold_def filler_cache_facts(1))
  have "\<forall>x \<in> set ?c. (case x of (key, expires, rv) \<Rightarrow> \<not> expires < now)"
    using assms filler_cache_facts(5) by (auto simp: not_less)
  then have live: "remove_expired ?c now = ?c"
    unfolding remove_expired_def by (simp only: filter_id_conv)
  have "sorted (map (\<lambda>(key, expires, rv). expires) ?c)"
    using filler_cache_facts(4,5) by auto
  then have "remove_older ?c = filler_cache"
    using filler_cache_facts(1,2) by (rule remove_older_oldest)
  then show ?thesis by (simp add: prune_def over live)
qed

lemma crowded_user: "current_user crowded_state (Some 2) = Some alice"
  using current_user_cong [of crowded_state sample_state] sample_user
  by (simp add: crowded_state_def)

text \<open>
  C7, as the specification states it, fails in its last part: between two requests for
  the same identifier, with no review created or deleted and long before the entry
  expires, a request for another identifier can push the cache over its threshold. The
  entry of the first identifier, being the oldest, is then evicted, and the second
  request looks the item up again; here the catalog cannot be reached by then, and the
  page that had data now has none. The cache of the state below is the one that 501
  requests have filled (\<open>crowded_state_reached\<close>).
\<close>

theorem repeated_read_counterexample:
  "movie_details sample_env 600 crowded_state (Some 2) ''tt0111161''
     = (RenderMovieDetails (Some sample_data) [], crowded_state)
   \<and> reviews (snd (movie_details sample_env 601 crowded_state (Some 2) ''tt0000000''))
       = reviews crowded_state
   \<and> (602::nat) < 86400
   \<and> fst (movie_details (sample_env\<lparr>omdb_lookup := \<lambda>_. RequestException\<rparr>) 602
          (snd (movie_details sample_env 601 crowded_state (Some 2) ''tt0000000'')) (Some 2)
          ''tt0111161'')
       = RenderMovieDetails None []"
proof -
  let ?kx = "view_key ''tt0111161''" and ?ky = "view_key ''tt0000000''"
  let ?page = "RenderMovieDetails (Some sample_data) []"
  let ?down = "sample_env\<lparr>omdb_lookup := \<lambda>_. RequestException\<rparr>"
  let ?r = "movie_details sample_env 601 crowded_state (Some 2) ''tt0000000''"
  have c: "cache crowded_state = (?kx, (86400, ?page)) # filler_cache"
    by (simp add: crowded_state_def)
  have "cache_get (cache crowded_state) 600 ?kx = Some ?page"
    by (simp add: c cache_get_def)
  from movie_details_hit [OF crowded_user this]
  have first: "movie_details sample_env 600 crowded_state (Some 2) ''tt0111161''
     = (?page, crowded_state)" .
  have "map_of filler_cache ?ky = None"
    using filler_cache_facts(3) by (simp add: map_of_eq_None_iff)
  then have "cache_get (cache crowded_state) 601 ?ky = None"
    by (simp add: c cache_get_def)
  note miss = movie_details_miss [OF crowded_user this, of sample_env]
  have rs: "reviews (snd ?r) = reviews crowded_state"
    by (simp add: miss(2) movie_details_body_snd)
  have "users (snd ?r) = users crowded_state"
    by (simp add: miss(2) movie_details_body_snd)
  from current_user_cong [OF this] crowded_user
  have u: "current_user (snd ?r) (Some 2) = Some alice" by simp
  have "cache (snd ?r) = AList.update ?ky
      (601 + 86400, fst (movie_details_body sample_env crowded_state ''tt0000000'')) filler_cache"
    by (simp add: miss(2) c cache_set_def prune_crowded)
  moreover have "map_of filler_cache ?kx = None"
    using filler_cache_facts(2) by (simp add: map_of_eq_None_iff)
  ultimately have "map_of (cache (snd ?r)) ?kx = None"
    by (simp add: AList.update_conv')
  then have "cache_get (cache (snd ?r)) 602 ?kx = None" by (simp add: cache_get_def)
  from movie_details_after_miss [OF u this, of ?down]
  have second: "fst (movie_details ?down 602 (snd ?r) (Some 2) ''tt0111161'')
      = RenderMovieDetails None []"
    by (simp add: movie_data_of_def has_data_def)
  from first rs second show ?thesis by simp
qed

text \<open>
  C7, amended. Invalidating twice leaves the cache as invalidating once does, and
  invalidating a key that is absent changes nothing and raises nothing. A second
  \<open>movie_details\<close> request for an identifier returns the page the first one returned, and
  changes nothing, whenever the entry that the first request stored or served is still in
  the cache and has not expired: so when the second request directly follows the first,
  and so after any request for another identifier made while the cache holds no more than
  its threshold of 500 entries, since such a request leaves the entry as it is. An entry
  stored by the first request does not expire before 86400 seconds have passed.
\<close>

theorem invalidate_idempotent_read_repeatable:
  "(delete_memoized env c imdb = Inr c1 \<longrightarrow> delete_memoized env c1 imdb = Inr c1)
   \<and> (memoized_key env imdb = Inr k \<and> map_of c k = None \<longrightarrow> delete_memoized env c imdb = Inr c)
   \<and> (current_user st session = Some u
        \<and> cache_get (cache (snd (movie_details env now st session imdb))) now' (view_key imdb) \<noteq> None
        \<longrightarrow> movie_details env' now' (snd (movie_details env now st session imdb)) session imdb
            = movie_details env now st session imdb)
   \<and> (current_user st session = Some u \<and> current_user st' session' = Some u'
        \<and> map_of (cache st') (view_key imdb)
            = map_of (cache (snd (movie_details env now st session imdb))) (view_key imdb)
        \<and> cache_get (cache st') now' (view_key imdb) \<noteq> None
        \<longrightarrow> movie_details env' now' st' session' imdb
            = (fst (movie_details env now st session imdb), st'))
   \<and> (current_user st' session' = Some u' \<and> length (cache st') \<le> threshold \<and> other \<noteq> imdb
        \<longrightarrow> map_of (cache (snd (movie_details env' now' st' session' other))) (view_key imdb)
            = map_of (cache st') (view_key imdb))
   \<and> (current_user st session = Some u
        \<and> cache_get (cache st) now (view_key imdb) = None \<and> now' < now + 86400
        \<longrightarrow> cache_get (cache (snd (movie_details env now st session imdb))) now' (view_key imdb)
            \<noteq> None)"
proof -
  let ?r = "movie_details env now st session imdb"
  have twice: "delete_memoized env c imdb = Inr c1 \<longrightarrow> delete_memoized env c1 imdb = Inr c1"
    by (auto simp: delete_memoized_def cache_delete_twice split: sum.splits)
  have absent: "memoized_key env imdb = Inr k \<and> map_of c k = None
      \<longrightarrow> delete_memoized env c imdb = Inr c"
    by (simp add: delete_memoized_def cache_delete_absent)
  have general: "current_user st session = Some u \<and> current_user st' session' = Some u'
        \<and> map_of (cache st') (view_key imdb) = map_of (cache (snd ?r)) (view_key imdb)
        \<and> cache_get (cache st') now' (view_key imdb) \<noteq> None
        \<longrightarrow> movie_details env' now' st' session' imdb = (fst ?r, st')"
    using same_entry_same_page by blast
  have again: "current_user st session = Some u
        \<and> cache_get (cache (snd ?r)) now' (view_key imdb) \<noteq> None
        \<longrightarrow> movie_details env' now' (snd ?r) session imdb = ?r"
  proof (intro impI, elim conjE)
    assume u: "current_user st session = Some u"
      and live: "cache_get (cache (snd ?r)) now' (view_key imdb) \<noteq> None"
    have "users (snd ?r) = users st"
    proof (cases "cache_get (cache st) now (view_key imdb)")
      case None
      then show ?thesis by (simp add: movie_details_miss(2) [OF u] movie_details_body_snd)
    next
      case (Some rv)
      then show ?thesis by (simp add: movie_details_hit [OF u])
    qed
    from current_user_cong [OF this] u
    have u': "current_user (snd ?r) session = Some u" by simp
    from same_entry_same_page [OF u u' refl live]
    show "movie_details env' now' (snd ?r) session imdb = ?r" by (simp add: prod_eq_iff)
  qed
  have other: "current_user st' session' = Some u' \<and> length (cache st') \<le> threshold
        \<and> other \<noteq> imdb
        \<longrightarrow> map_of (cache (snd (movie_details env' now' st' session' other))) (view_key imdb)
            = map_of (cache st') (view_key imdb)"
    using read_other_keeps_entry by blast
  have fresh: "current_user st session = Some u
        \<and> cache_get (cache st) now (view_key imdb) = None \<and> now' < now + 86400
        \<longrightarrow> cache_get (cache (snd ?r)) now' (view_key imdb) \<noteq> None"
  proof (intro impI, elim conjE)
    assume u: "current_user st session = Some u"
      and miss: "cache_get (cache st) now (view_key imdb) = None"
      and t: "now' < now + 86400"
    show "cache_get (cache (snd ?r)) now' (view_key imdb) \<noteq> None"
      using t by (simp add: movie_details_miss(2) [OF u miss] cache_get_set)
  qed
  show ?thesis
    by (rule conjI [OF twice conjI [OF absent conjI [OF again conjI [OF general
          conjI [OF other fresh]]]]])
qed

theorem invalidate_idempotent_read_repeatable_witness:
  "memoized_key sample_env ''tt0111161'' = Inr ''memoized/tt0111161''
   \<and> map_of (cache populated_state) ''memoized/tt0111161'' = None
   \<and> delete_memoized sample_env (cache populated_state) ''tt0111161''
       = Inr (cache populated_state)
   \<and> delete_memoized (sample_env\<lparr>memoized_key := \<lambda>i. Inr (view_key i)\<rparr>)
        (cache populated_state) ''tt0111161'' = Inr []
   \<and> delete_memoized (sample_env\<lparr>memoized_key := \<lambda>i. Inr (view_key i)\<rparr>) [] ''tt0111161''
       = Inr []
   \<and> current_user sample_state (Some 2) = Some alice
   \<and> cache_get (cache sample_state) 0 (view_key ''tt0111161'') = None
   \<and> (100::nat) < 0 + 86400
   \<and> movie_details sample_env 100 populated_state (Some 2) ''tt0111161''
       = movie_details sample_env 0 sample_state (Some 2) ''tt0111161''
   \<and> current_user populated_state (Some 3) = Some admin_user
   \<and> length (cache populated_state) \<le> threshold
   \<and> ''tt0000000'' \<noteq> ''tt0111161''
   \<and> movie_details sample_env 100
        (snd (movie_details sample_env 50 populated_state (Some 3) ''tt0000000'')) (Some 2)
        ''tt0111161''
       = (RenderMovieDetails (Some sample_data) [],
          snd (movie_details sample_env 50 populated_state (Some 3) ''tt0000000''))"
proof -
  let ?x = "''tt0111161''" and ?y = "''tt0000000''"
  let ?E = "sample_env\<lparr>memoized_key := \<lambda>i. Inr (view_key i)\<rparr>"
  let ?F = "movie_details sample_env 0 sample_state (Some 2) ?x"
  let ?I = "snd (movie_details sample_env 50 populated_state (Some 3) ?y)"
  note F = populated_state_facts(4)
  have k: "memoized_key sample_env ?x = Inr ''memoized/tt0111161''"
    by (simp add: sample_env_def)
  have absent: "map_of (cache populated_state) ''memoized/tt0111161'' = None"
    by (simp add: populated_state_facts(3) view_key_def)
  have present: "delete_memoized ?E (cache populated_state) ?x = Inr []"
    by (simp add: delete_memoized_def cache_delete_def populated_state_facts(3) AList.delete_eq)
  have len: "length (cache populated_state) \<le> threshold"
    by (simp add: populated_state_facts(3) threshold_def)
  have ne: "?y \<noteq> ?x" by simp
  have t: "(100::nat) < 0 + 86400" by simp
  note T = invalidate_idempotent_read_repeatable
  have a: "delete_memoized sample_env (cache populated_state) ?x = Inr (cache populated_state)"
    by (rule mp [OF T [where k = "''memoized/tt0111161''", THEN conjunct2, THEN conjunct1]])
      (intro conjI k absent)
  have b: "delete_memoized ?E [] ?x = Inr []"
    by (rule mp [OF T [THEN conjunct1] present])
  have live: "cache_get (cache (snd ?F)) 100 (view_key ?x) \<noteq> None"
    by (rule mp [OF T [where u = alice, THEN conjunct2, THEN conjunct2, THEN conjunct2,
          THEN conjunct2, THEN conjunct2]])
      (intro conjI sample_user sample_cache_empty t)
  have again: "movie_details sample_env 100 (snd ?F) (Some 2) ?x = ?F"
    by (rule mp [OF T [where u = alice, THEN conjunct2, THEN conjunct2, THEN conjunct1]])
      (intro conjI sample_user live)
  have keep: "map_of (cache ?I) (view_key ?x) = map_of (cache populated_state) (view_key ?x)"
    by (rule mp [OF T [where u' = admin_user, THEN conjunct2, THEN conjunct2, THEN conjunct2,
          THEN conjunct2, THEN conjunct1]])
      (intro conjI populated_users(2) len ne)
  from movie_details_keeps_tables(1) [OF populated_users(2)]
  have "users ?I = users populated_state" .
  from current_user_cong [OF this] populated_users(1)
  have u: "current_user ?I (Some 2) = Some alice" by simp
  have sF: "snd ?F = populated_state" by (simp only: F snd_conv)
  have same: "map_of (cache ?I) (view_key ?x) = map_of (cache (snd ?F)) (view_key ?x)"
    by (simp only: keep sF)
  have live': "cache_get (cache ?I) 100 (view_key ?x) \<noteq> None"
    using live unfolding cache_get_def same .
  have later: "movie_details sample_env 100 ?I (Some 2) ?x = (fst ?F, ?I)"
    by (rule mp [OF T [where u = alice and u' = alice, THEN conjunct2, THEN conjunct2,
          THEN conjunct2, THEN conjunct1]])
      (intro conjI sample_user u same live')
  have fF: "fst ?F = RenderMovieDetails (Some sample_data) []" by (simp only: F fst_conv)
  have again': "movie_details sample_env 100 populated_state (Some 2) ?x = ?F"
    using again unfolding sF .
  have later': "movie_details sample_env 100 ?I (Some 2) ?x
      = (RenderMovieDetails (Some sample_data) [], ?I)"
    using later unfolding fF .
  show ?thesis
    by (intro conjI k absent a present b sample_user sample_cache_empty t again'
        populated_users(2) len ne later')
qed


section \<open>Coherence\<close>

lemma delete_review_invalidation_succeeds:
  assumes "current_user st session = Some u" and "is_admin u"
    and "find (\<lambda>r. rid r = i) (reviews st) = Some r0"
    and "imdb_id r0 = Some imdb" and "imdb \<noteq> []"
    and "memoized_key env imdb = Inr k"
  shows "fst (delete_review env st session i) = Inr (RedirectTo ''admin'' None)"
    and "users (snd (delete_review env st session i)) = users st"
    and "cache (snd (delete_review env st session i)) = cache_delete (cache st) k"
    and "reviews (snd (delete_review env st session i)) = filter (\<lambda>r. rid r \<noteq> i) (reviews st)"
  using assms by (simp_all add: delete_review_def delete_memoized_def truthy_def)

text \<open>
  Whether the entry of the view is gone after the invalidation depends on the key that
  the cache library derives for \<open>delete_memoized\<close>: the entry goes if that key is the key
  of the view, and stays if it is another.
\<close>

lemma invalidation_reaches_view:
  "cache_get (cache_delete c (view_key imdb)) now (view_key imdb) = None"
  by simp

lemma invalidation_elsewhere_keeps_view:
  "k \<noteq> view_key imdb \<Longrightarrow>
     cache_get (cache_delete c k) now (view_key imdb) = cache_get c now (view_key imdb)"
  by (simp add: cache_get_delete_other)

text \<open>
  C1 does not hold of the code. \<open>predict\<close> and \<open>delete_review\<close> call
  \<open>cache.delete_memoized(movie_details, imdb_id)\<close> to invalidate the page of the identifier,
  but Flask-Caching derives the key of that call from the function and its arguments,
  which is not the key \<open>view/<request path>\<close> under which \<open>cache.cached\<close> stored the page.
  Whenever the two keys differ, a page that is live in the cache is still served, as it
  was, after a successful submission or deletion for its identifier: without the created
  review, or with the deleted one.
\<close>

theorem stale_read_after_mutation:
  assumes "current_user st session = Some u"
    and "imdb \<noteq> []"
    and "memoized_key env imdb = Inr k"
    and "k \<noteq> view_key imdb"
    and "cache_get (cache st) now' (view_key imdb) = Some rv"
  shows
    "(review_text form = Some t \<and> form_imdb_id form = Some imdb
        \<and> np_max (predict_proba m [t]) = Inr conf \<and> model_predict m [t] = c # cs
      \<longrightarrow> (\<exists>resp. fst (predict env m st session form) = Inr resp)
        \<and> (\<exists>r. reviews (snd (predict env m st session form)) = reviews st @ [r]
               \<and> content r = t \<and> imdb_id r = Some imdb)
        \<and> movie_details env' now' (snd (predict env m st session form)) session imdb
            = (rv, snd (predict env m st session form)))
     \<and> (is_admin u \<and> find (\<lambda>r. rid r = i) (reviews st) = Some r0 \<and> imdb_id r0 = Some imdb
      \<longrightarrow> fst (delete_review env st session i) = Inr (RedirectTo ''admin'' None)
        \<and> reviews (snd (delete_review env st session i)) = filter (\<lambda>r. rid r \<noteq> i) (reviews st)
        \<and> movie_details env' now' (snd (delete_review env st session i)) session imdb
            = (rv, snd (delete_review env st session i)))"
proof (intro conjI impI)
  assume h: "review_text form = Some t \<and> form_imdb_id form = Some imdb
        \<and> np_max (predict_proba m [t]) = Inr conf \<and> model_predict m [t] = c # cs"
  let ?st = "snd (predict env m st session form)"
  from h have h1: "review_text form = Some t" and h2: "form_imdb_id form = Some imdb"
    and h3: "np_max (predict_proba m [t]) = Inr conf" and h4: "model_predict m [t] = c # cs"
    by simp_all
  note S = predict_invalidation_succeeds [OF assms(1) h1 h3 h4 h2 assms(2,3)]
  show "\<exists>resp. fst (predict env m st session form) = Inr resp" by (rule S(1))
  show "\<exists>r. reviews ?st = reviews st @ [r] \<and> content r = t \<and> imdb_id r = Some imdb"
    by (simp add: S(4))
  from current_user_cong [OF S(2)] assms(1)
  have u: "current_user ?st session = Some u" by simp
  have "cache_get (cache ?st) now' (view_key imdb) = Some rv"
    unfolding S(3) using assms(4,5) by (simp add: cache_get_delete_other)
  from movie_details_hit [OF u this]
  show "movie_details env' now' ?st session imdb = (rv, ?st)" .
next
  assume h: "is_admin u \<and> find (\<lambda>r. rid r = i) (reviews st) = Some r0 \<and> imdb_id r0 = Some imdb"
  let ?st = "snd (delete_review env st session i)"
  from h have h1: "is_admin u" and h2: "find (\<lambda>r. rid r = i) (reviews st) = Some r0"
    and h3: "imdb_id r0 = Some imdb"
    by simp_all
  note D = delete_review_invalidation_succeeds [OF assms(1) h1 h2 h3 assms(2,3)]
  show "fst (delete_review env st session i) = Inr (RedirectTo ''admin'' None)" by (rule D(1))
  show "reviews ?st = filter (\<lambda>r. rid r \<noteq> i) (reviews st)" by (rule D(4))
  from current_user_cong [OF D(2)] assms(1)
  have u: "current_user ?st session = Some u" by simp
  have "cache_get (cache ?st) now' (view_key imdb) = Some rv"
    unfolding D(3) using assms(4,5) by (simp add: cache_get_delete_other)
  from movie_details_hit [OF u this]
  show "movie_details env' now' ?st session imdb = (rv, ?st)" .
qed

lemma sample_key: "memoized_key sample_env ''tt0111161'' = Inr ''memoized/tt0111161''"
  by (simp add: sample_env_def)

lemma listed_state_facts:
  "users listed_state = [alice, admin_user]"
  "reviews listed_state = [sample_review]"
  "cache listed_state
     = [(view_key ''tt0111161'',
         (86400, RenderMovieDetails (Some sample_data) [(sample_review, alice)]))]"
proof -
  let ?s = "sample_state\<lparr>reviews := [sample_review]\<rparr>"
  have "users ?s = users sample_state" by simp
  from current_user_cong [OF this] sample_admin
  have u: "current_user ?s (Some 3) = Some admin_user" by simp
  have e: "cache_get (cache ?s) 0 (view_key ''tt0111161'') = None"
    using sample_cache_empty [of 0 "view_key ''tt0111161''"] by simp
  note miss = movie_details_miss [OF u e, of sample_env]
  have "reviews_with_users ?s ''tt0111161'' = [(sample_review, alice)]"
    by (simp add: reviews_with_users_def order_desc_def sample_state_def empty_state_def
        sample_review_def alice_def admin_user_def)
  then have f: "fst (movie_details_body sample_env ?s ''tt0111161'')
      = RenderMovieDetails (Some sample_data) [(sample_review, alice)]"
    by (simp add: movie_details_body_fst sample_known has_data_def sample_data_def)
  have c: "cache ?s = []" by (simp add: sample_state_def empty_state_def)
  show "users listed_state = [alice, admin_user]"
    unfolding listed_state_def miss(2)
    by (simp add: movie_details_body_snd sample_state_def empty_state_def)
  show "reviews listed_state = [sample_review]"
    unfolding listed_state_def miss(2) by (simp add: movie_details_body_snd)
  show "cache listed_state
     = [(view_key ''tt0111161'',
         (86400, RenderMovieDetails (Some sample_data) [(sample_review, alice)]))]"
    unfolding listed_state_def miss(2) by (simp add: f c cache_set_empty)
qed

theorem stale_read_after_mutation_witness:
  "current_user populated_state (Some 2) = Some alice
   \<and> ''tt0111161'' \<noteq> []
   \<and> memoized_key sample_env ''tt0111161'' = Inr ''memoized/tt0111161''
   \<and> ''memoized/tt0111161'' \<noteq> view_key ''tt0111161''
   \<and> cache_get (cache populated_state) 10 (view_key ''tt0111161'')
       = Some (RenderMovieDetails (Some sample_data) [])
   \<and> review_text sample_form = Some ''this movie was wonderful''
   \<and> form_imdb_id sample_form = Some ''tt0111161''
   \<and> np_max (predict_proba sample_model [''this movie was wonderful'']) = Inr (9 / 10)
   \<and> model_predict sample_model [''this movie was wonderful''] = [1]
   \<and> reviews after_submission = [sample_review]
   \<and> movie_details sample_env 10 after_submission (Some 2) ''tt0111161''
       = (RenderMovieDetails (Some sample_data) [], after_submission)
   \<and> current_user listed_state (Some 3) = Some admin_user
   \<and> is_admin admin_user
   \<and> find (\<lambda>r. rid r = 1) (reviews listed_state) = Some sample_review
   \<and> imdb_id sample_review = Some ''tt0111161''
   \<and> cache_get (cache listed_state) 10 (view_key ''tt0111161'')
       = Some (RenderMovieDetails (Some sample_data) [(sample_review, alice)])
   \<and> reviews after_deletion = []
   \<and> movie_details sample_env 10 after_deletion (Some 3) ''tt0111161''
       = (RenderMovieDetails (Some sample_data) [(sample_review, alice)], after_deletion)"
proof -
  let ?x = "''tt0111161''"
  have n: "?x \<noteq> []" by simp
  have d: "''memoized/tt0111161'' \<noteq> view_key ?x" by (simp add: view_key_def)
  have live1: "cache_get (cache populated_state) 10 (view_key ?x)
       = Some (RenderMovieDetails (Some sample_data) [])"
    by (simp add: populated_state_facts(3) cache_get_def)
  have h: "review_text sample_form = Some ''this movie was wonderful''
        \<and> form_imdb_id sample_form = Some ?x
        \<and> np_max (predict_proba sample_model [''this movie was wonderful'']) = Inr (9 / 10)
        \<and> model_predict sample_model [''this movie was wonderful''] = [1]"
    by (intro conjI sample_form_fields sample_probabilities)
  note A = mp [OF stale_read_after_mutation
      [OF populated_users(1) n sample_key d live1, THEN conjunct1] h, folded after_submission_def]
  note S = predict_invalidation_succeeds
    [OF populated_users(1) sample_form_fields(1) sample_probabilities sample_form_fields(2) n
      sample_key, folded after_submission_def]
  have rs1: "reviews after_submission = [sample_review]"
    unfolding S(4)
    by (simp add: populated_state_facts(2) next_id_def alice_def sample_review_def)
  have read1: "movie_details sample_env 10 after_submission (Some 2) ?x
       = (RenderMovieDetails (Some sample_data) [], after_submission)"
    using A by blast
  have "users listed_state = users sample_state"
    by (simp add: listed_state_facts(1) sample_state_def empty_state_def)
  from current_user_cong [OF this] sample_admin
  have adm: "current_user listed_state (Some 3) = Some admin_user" by simp
  have isa: "is_admin admin_user" by (simp add: admin_user_def)
  have fnd: "find (\<lambda>r. rid r = 1) (reviews listed_state) = Some sample_review"
    unfolding listed_state_facts(2) by (simp add: sample_review_def)
  have im: "imdb_id sample_review = Some ?x" by (simp add: sample_review_def)
  have live2: "cache_get (cache listed_state) 10 (view_key ?x)
       = Some (RenderMovieDetails (Some sample_data) [(sample_review, alice)])"
    by (simp add: listed_state_facts(3) cache_get_def)
  have g: "is_admin admin_user \<and> find (\<lambda>r. rid r = 1) (reviews listed_state) = Some sample_review
      \<and> imdb_id sample_review = Some ?x"
    by (intro conjI isa fnd im)
  note B = mp [OF stale_read_after_mutation
      [OF adm n sample_key d live2, THEN conjunct2] g, folded after_deletion_def]
  have rs2: "reviews after_deletion = []"
    using B unfolding listed_state_facts(2) by (simp add: sample_review_def)
  have read2: "movie_details sample_env 10 after_deletion (Some 3) ?x
       = (RenderMovieDetails (Some sample_data) [(sample_review, alice)], after_deletion)"
    using B by blast
  show ?thesis
    by (intro conjI populated_users(1) n sample_key d live1 sample_form_fields
        sample_probabilities rs1 read1 adm isa fnd im live2 rs2 read2)
qed


end
